theory Spec2Isabelle
  imports Complex_Main "HOL-Library.Sublist" "HOL-Library.Multiset"
begin

section \<open>Strings\<close>

text \<open>
  A JavaScript string is modelled as a \<open>string\<close> (a list of 8-bit characters): the
  code units below 256. Case mapping is the ASCII one (\<open>A\<close>..\<open>Z\<close> to \<open>a\<close>..\<open>z\<close>,
  every other character unchanged), and \<open>\s\<close> of a regular expression is tab, line feed,
  vertical tab, form feed, carriage return, space and the no-break space.
\<close>

definition is_space :: "char \<Rightarrow> bool" where
  "is_space c = (of_char c \<in> {9, 10, 11, 12, 13, 32, 160 :: nat})"

definition lower_char :: "char \<Rightarrow> char" where
  "lower_char c = (let n = of_char c :: nat in if 65 \<le> n \<and> n \<le> 90 then char_of (n + 32) else c)"

definition toLowerCase :: "string \<Rightarrow> string" where
  "toLowerCase s = map lower_char s"

text \<open>\<open>s.trim()\<close>\<close>

definition trim :: "string \<Rightarrow> string" where
  "trim s = rev (dropWhile is_space (rev (dropWhile is_space s)))"

text \<open>\<open>s.includes(t)\<close>: \<open>t\<close> occurs in \<open>s\<close> as a run of consecutive characters.\<close>

fun includes_str :: "string \<Rightarrow> string \<Rightarrow> bool" where
  "includes_str [] t = (t = [])"
| "includes_str (c # cs) t = (prefix t (c # cs) \<or> includes_str cs t)"

text \<open>
  \<open>s.split(/\s+/)\<close>: the pieces between the maximal runs of white space; a string
  that starts or ends with white space yields an empty first or last piece, and the
  empty string yields one empty piece. \<open>insp\<close> says that the last character read was
  white space, \<open>cur\<close> is the piece being read.
\<close>

fun split_ws :: "bool \<Rightarrow> string \<Rightarrow> string \<Rightarrow> string list" where
  "split_ws insp cur [] = [cur]"
| "split_ws insp cur (c # cs) =
     (if is_space c then (if insp then split_ws True cur cs else cur # split_ws True [] cs)
      else split_ws False (cur @ [c]) cs)"

section \<open>The search worker\<close>

subsection \<open>Tokens, escaping and highlighting\<close>

text \<open>
  \<open>tokenize(s)\<close> is
  \<open>s.toLowerCase().split(/\s+/).map(x=>x.trim()).filter(Boolean).slice(0,5)\<close>.
\<close>

definition tokenize :: "string \<Rightarrow> string list" where
  "tokenize s = take 5 (filter (\<lambda>x. x \<noteq> []) (map trim (split_ws False [] (toLowerCase s))))"

text \<open>\<open>esc\<close> replaces each of the four characters \<open>& < > "\<close> by its entity.\<close>

definition esc_char :: "char \<Rightarrow> string" where
  "esc_char c =
     (if c = CHR ''&'' then ''&amp;''
      else if c = CHR ''<'' then ''&lt;''
      else if c = CHR ''>'' then ''&gt;''
      else if c = CHR 0x22 then ''&quot;''
      else [c])"

definition esc :: "string \<Rightarrow> string" where
  "esc s = concat (map esc_char s)"

text \<open>
  \<open>out.replace(re, '<mark>$1</mark>')\<close> with \<open>re = new RegExp(`(${escapeRegExp(t)})`, 'ig')\<close>.
  \<open>escapeRegExp\<close> puts a backslash before every character that has a meaning in a
  pattern, so \<open>re\<close> matches the characters of \<open>t\<close> themselves, ignoring case. The global
  replacement reads \<open>out\<close> from the left: where \<open>t\<close> matches, the matched characters are
  wrapped and reading goes on after them, otherwise one character is copied. (A pattern
  that matches the empty string matches once at every position; \<open>tokenize\<close> never yields
  an empty token.)
\<close>

definition matches_at :: "string \<Rightarrow> string \<Rightarrow> bool" where
  "matches_at t s = prefix (toLowerCase t) (toLowerCase s)"

definition mark :: "string \<Rightarrow> string" where
  "mark w = ''<mark>'' @ w @ ''</mark>''"

fun replace_marks :: "string \<Rightarrow> string \<Rightarrow> string" where
  "replace_marks t [] = (if t = [] then mark [] else [])"
| "replace_marks t (c # cs) =
     (if t = [] then mark [] @ c # replace_marks t cs
      else if matches_at t (c # cs)
        then mark (take (length t) (c # cs)) @ replace_marks t (drop (length t - 1) cs)
      else c # replace_marks t cs)"

text \<open>\<open>highlight(text, tokens)\<close>: the passes follow the order of the tokens.\<close>

fun highlight_loop :: "string \<Rightarrow> string list \<Rightarrow> string" where
  "highlight_loop out [] = out"
| "highlight_loop out (t # ts) = highlight_loop (replace_marks t out) ts"

definition highlight :: "string \<Rightarrow> string list \<Rightarrow> string" where
  "highlight txt tokens = highlight_loop (esc txt) tokens"

subsection \<open>The scan\<close>

text \<open>
  A verse as the store hands it out, and a hit as the worker reports it. Numbers that
  passed \<open>Number.isFinite\<close> are rationals (every finite double is one; rounding and the
  negative zero are not modelled).
\<close>

record verse =
  v_book :: string
  v_chapter :: rat
  v_verse :: rat
  v_text :: string
  v_paragraphStart :: bool

record hit =
  h_book :: string
  h_chapter :: nat
  h_verse :: rat
  h_previewHtml :: string

text \<open>The index metadata sent to the worker once: parallel arrays.\<close>

record index_meta =
  m_books :: "string list"
  m_chapterCounts :: "rat list"

text \<open>
  The worker's \<open>getChapter(b, c)\<close> returns the verses the owning context answers the
  request \<open>need-chapter\<close> with (or the copy it kept of an earlier answer). It is the
  parameter \<open>chap\<close> of the scan: the model covers the runs in which every request is
  answered.
\<close>

type_synonym chapter_source = "string \<Rightarrow> nat \<Rightarrow> verse list"

text \<open>The flag \<open>ok\<close> of the loop over the tokens, which stops at the first token missing.\<close>

fun verse_ok :: "string \<Rightarrow> string list \<Rightarrow> bool" where
  "verse_ok txt [] = True"
| "verse_ok txt (t # ts) = (if \<not> includes_str txt t then False else verse_ok txt ts)"

definition make_hit :: "string list \<Rightarrow> string \<Rightarrow> nat \<Rightarrow> verse \<Rightarrow> hit" where
  "make_hit tokens b c v =
     \<lparr>h_book = b, h_chapter = c, h_verse = v_verse v,
      h_previewHtml = highlight (v_text v) tokens\<rparr>"

text \<open>
  The three nested loops. Each returns the results so far and whether \<open>break outer\<close> was
  taken: the test \<open>results.length >= limit\<close> stands after the \<open>push\<close>.
\<close>

fun scan_verses :: "string list \<Rightarrow> int \<Rightarrow> string \<Rightarrow> nat \<Rightarrow> verse list \<Rightarrow> hit list
    \<Rightarrow> hit list \<times> bool" where
  "scan_verses tokens limit b c [] results = (results, False)"
| "scan_verses tokens limit b c (v # vs) results =
     (if verse_ok (toLowerCase (v_text v)) tokens
      then (let results' = results @ [make_hit tokens b c v]
            in if int (length results') \<ge> limit then (results', True)
               else scan_verses tokens limit b c vs results')
      else scan_verses tokens limit b c vs results)"

fun scan_chapters :: "chapter_source \<Rightarrow> string list \<Rightarrow> int \<Rightarrow> string \<Rightarrow> nat list \<Rightarrow> hit list
    \<Rightarrow> hit list \<times> bool" where
  "scan_chapters chap tokens limit b [] results = (results, False)"
| "scan_chapters chap tokens limit b (c # cs) results =
     (case scan_verses tokens limit b c (chap b c) results of
        (results', True) \<Rightarrow> (results', True)
      | (results', False) \<Rightarrow> scan_chapters chap tokens limit b cs results')"

text \<open>
  \<open>cc = meta.chapterCounts[bi] || 1\<close>, and the chapters \<open>c = 1, 2, ...\<close> with \<open>c <= cc\<close>.
\<close>

definition count_at :: "index_meta \<Rightarrow> nat \<Rightarrow> rat" where
  "count_at meta bi =
     (if bi < length (m_chapterCounts meta) \<and> m_chapterCounts meta ! bi \<noteq> 0
      then m_chapterCounts meta ! bi else 1)"

definition chapter_numbers :: "rat \<Rightarrow> nat list" where
  "chapter_numbers cc = map Suc [0..<nat \<lfloor>cc\<rfloor>]"

fun scan_books :: "chapter_source \<Rightarrow> string list \<Rightarrow> int \<Rightarrow> index_meta \<Rightarrow> nat list \<Rightarrow> hit list
    \<Rightarrow> hit list" where
  "scan_books chap tokens limit meta [] results = results"
| "scan_books chap tokens limit meta (bi # bis) results =
     (case scan_chapters chap tokens limit (m_books meta ! bi)
             (chapter_numbers (count_at meta bi)) results of
        (results', True) \<Rightarrow> results'
      | (results', False) \<Rightarrow> scan_books chap tokens limit meta bis results')"

definition search :: "index_meta \<Rightarrow> chapter_source \<Rightarrow> string \<Rightarrow> int \<Rightarrow> hit list" where
  "search meta chap q limit =
     (let tokens = tokenize q
      in if tokens = [] then []
         else scan_books chap tokens limit meta [0..<length (m_books meta)] [])"

section \<open>The data loader and normalizer\<close>

subsection \<open>JavaScript values\<close>

text \<open>
  A number is a finite value, \<open>NaN\<close> or an infinity. The scalar values a property of a
  decoded JSON object can hold are \<open>null\<close>, a boolean, a number and a string; a property
  that is absent reads as \<open>undefined\<close>, here \<open>None\<close>.
\<close>

datatype jsnum = Fin rat | NaN | PInf | NInf

datatype jsval = Null | Bool bool | Num jsnum | Str string

text \<open>
  \<open>Number(s)\<close> and \<open>String(n)\<close> for a string \<open>s\<close> and a number \<open>n\<close> are the runtime's
  conversions. The model takes them as parameters, so every theorem holds whatever they
  return.
\<close>

record runtime =
  str_to_num :: "string \<Rightarrow> jsnum"
  num_to_str :: "jsnum \<Rightarrow> string"

fun Number_of :: "runtime \<Rightarrow> jsval option \<Rightarrow> jsnum" where
  "Number_of rt None = NaN"
| "Number_of rt (Some Null) = Fin 0"
| "Number_of rt (Some (Bool b)) = Fin (if b then 1 else 0)"
| "Number_of rt (Some (Num n)) = n"
| "Number_of rt (Some (Str s)) = str_to_num rt s"

fun String_of :: "runtime \<Rightarrow> jsval \<Rightarrow> string" where
  "String_of rt Null = ''null''"
| "String_of rt (Bool b) = (if b then ''true'' else ''false'')"
| "String_of rt (Num n) = num_to_str rt n"
| "String_of rt (Str s) = s"

fun isFinite :: "jsnum \<Rightarrow> bool" where
  "isFinite (Fin q) = True"
| "isFinite n = False"

fun fin_val :: "jsnum \<Rightarrow> rat" where
  "fin_val (Fin q) = q"
| "fin_val n = 0"

text \<open>\<open>x | 0\<close>: the number cut to an integer towards zero, wrapped into 32 bits, signed.\<close>

fun to_int32 :: "jsnum \<Rightarrow> int" where
  "to_int32 (Fin q) =
     (let t = (if q < 0 then \<lceil>q\<rceil> else \<lfloor>q\<rfloor>) in (t + 2 ^ 31) mod 2 ^ 32 - 2 ^ 31)"
| "to_int32 n = 0"

text \<open>
  \<open>a ?? b ?? ... ?? z\<close>: the first operand that is neither \<open>undefined\<close> nor \<open>null\<close>, and
  the last operand when there is none.
\<close>

fun nullish :: "jsval option \<Rightarrow> bool" where
  "nullish None = True"
| "nullish (Some Null) = True"
| "nullish (Some v) = False"

fun coalesce :: "jsval option list \<Rightarrow> jsval option" where
  "coalesce [] = None"
| "coalesce [x] = x"
| "coalesce (x # y # ys) = (if nullish x then coalesce (y # ys) else x)"

subsection \<open>The Canon table\<close>

definition BUILT_IN_CANON :: "(string \<times> rat) list" where
  "BUILT_IN_CANON =
   [(''Genesis'',50),(''Exodus'',40),(''Leviticus'',27),(''Numbers'',36),(''Deuteronomy'',34),
    (''Joshua'',24),(''Judges'',21),(''Ruth'',4),(''1 Samuel'',31),(''2 Samuel'',24),
    (''1 Kings'',22),(''2 Kings'',25),(''1 Chronicles'',29),(''2 Chronicles'',36),(''Ezra'',10),
    (''Nehemiah'',13),(''Esther'',10),(''Job'',42),(''Psalms'',150),(''Proverbs'',31),
    (''Ecclesiastes'',12),(''Song of Solomon'',8),(''Isaiah'',66),(''Jeremiah'',52),(''Lamentations'',5),
    (''Ezekiel'',48),(''Daniel'',12),(''Hosea'',14),(''Joel'',3),(''Amos'',9),
    (''Obadiah'',1),(''Jonah'',4),(''Micah'',7),(''Nahum'',3),(''Habakkuk'',3),
    (''Zephaniah'',3),(''Haggai'',2),(''Zechariah'',14),(''Malachi'',4),
    (''Matthew'',28),(''Mark'',16),(''Luke'',24),(''John'',21),(''Acts'',28),
    (''Romans'',16),(''1 Corinthians'',16),(''2 Corinthians'',13),(''Galatians'',6),(''Ephesians'',6),
    (''Philippians'',4),(''Colossians'',4),(''1 Thessalonians'',5),(''2 Thessalonians'',3),(''1 Timothy'',6),
    (''2 Timothy'',4),(''Titus'',3),(''Philemon'',1),(''Hebrews'',13),(''James'',5),
    (''1 Peter'',5),(''2 Peter'',3),(''1 John'',5),(''2 John'',1),(''3 John'',1),
    (''Jude'',1),(''Revelation'',22)]"

definition CANON_66 :: "string list" where
  "CANON_66 = map fst BUILT_IN_CANON"

definition bookFromId :: "runtime \<Rightarrow> jsval option \<Rightarrow> string option" where
  "bookFromId rt n =
     (let i = to_int32 (Number_of rt n)
      in if i \<ge> 1 \<and> i \<le> 66 then Some (CANON_66 ! nat (i - 1)) else None)"

subsection \<open>The bulk payload\<close>

text \<open>
  A verse row is a decoded JSON object. Its name properties (\<open>book_name\<close>, \<open>bookName\<close>,
  \<open>name\<close>, \<open>Book\<close>, \<open>BOOK\<close>) hold strings where they are present and not \<open>null\<close>
  (\<open>r_names\<close>); every other property holds a scalar (\<open>r_props\<close>). A property occurs once.
\<close>

record row =
  r_names :: "(string \<times> string) list"
  r_props :: "(string \<times> jsval) list"

text \<open>
  The decoded payload: an array of rows, an object (its properties in the order
  \<open>Object.values\<close> lists them, each an array of rows or something else), or a scalar.
\<close>

datatype field = Arr "row list" | NonArr

datatype bulk = Rows "row list" | Object "(string \<times> field) list" | Scalar

fun array_field :: "(string \<times> field) list \<Rightarrow> string \<Rightarrow> row list option" where
  "array_field obj k = (case map_of obj k of Some (Arr rs) \<Rightarrow> Some rs | _ \<Rightarrow> None)"

fun arrays_of :: "(string \<times> field) list \<Rightarrow> row list list" where
  "arrays_of [] = []"
| "arrays_of ((k, Arr rs) # kvs) = rs # arrays_of kvs"
| "arrays_of ((k, NonArr) # kvs) = arrays_of kvs"

definition firstArrayInObject :: "(string \<times> field) list \<Rightarrow> row list" where
  "firstArrayInObject obj =
     (case array_field obj ''data'' of Some rs \<Rightarrow> rs | None \<Rightarrow>
      (case array_field obj ''verses'' of Some rs \<Rightarrow> rs | None \<Rightarrow>
      (case array_field obj ''items'' of Some rs \<Rightarrow> rs | None \<Rightarrow>
      (case array_field obj ''text'' of Some rs \<Rightarrow> rs | None \<Rightarrow>
         concat (arrays_of obj)))))"

subsection \<open>The store\<close>

text \<open>
  The maps \<open>_cache\<close> and \<open>_singleByRef\<close> are keyed by the string \<open>`${book}:${chapter}`\<close>.
  The text of a number holds no colon, so the string determines the book and the chapter
  number: the key is modelled as the pair. The chapter counts of \<open>_bookChapters\<close> are
  finite numbers: they come from the Canon table, from the greatest chapter number of a
  payload, or from the file of a book.
\<close>

type_synonym ref_key = "string \<times> rat"

record data =
  singleFile :: string
  perBookDir :: string
  canonFile :: string
  books :: "string list"
  bookChapters :: "string \<rightharpoonup> rat"
  cache :: "ref_key \<rightharpoonup> verse list"
  singleByRef :: "(ref_key \<rightharpoonup> verse list) option"

text \<open>The constructor.\<close>

definition new_Data :: "string \<Rightarrow> string \<Rightarrow> string \<Rightarrow> data" where
  "new_Data single dir canon =
     \<lparr>singleFile = single, perBookDir = dir, canonFile = canon, books = [],
      bookChapters = Map.empty, cache = Map.empty, singleByRef = None\<rparr>"

datatype error =
    UnknownFieldNames   \<comment> \<open>KJV JSON parsed but verse rows used unknown field names.\<close>
  | NoVerseRows         \<comment> \<open>KJV JSON parsed but contained no verse rows.\<close>
  | InlineNotParsed     \<comment> \<open>Inline kjv-json could not be parsed\<close>
  | LooksLikeHtml       \<comment> \<open>looks like an HTML page, not JSON\<close>
  | SyntaxError         \<comment> \<open>thrown by \<open>JSON.parse\<close> and by \<open>res.json()\<close>\<close>
  | FetchFailed         \<comment> \<open>thrown by \<open>fetch\<close>\<close>
  | MissingData string  \<comment> \<open>Missing data for book: ...\<close>

definition hasBook :: "data \<Rightarrow> string \<Rightarrow> bool" where
  "hasBook d b = (b \<in> set (books d))"

text \<open>\<open>chapterCount\<close>: \<open>val || 1\<close>, and a count of zero is falsy.\<close>

definition chapterCount :: "data \<Rightarrow> string \<Rightarrow> rat" where
  "chapterCount d book =
     (case bookChapters d book of None \<Rightarrow> 1 | Some val \<Rightarrow> if val = 0 then 1 else val)"

definition indexMeta :: "data \<Rightarrow> index_meta" where
  "indexMeta d = \<lparr>m_books = books d, m_chapterCounts = map (chapterCount d) (books d)\<rparr>"

subsection \<open>Single-source ingestion\<close>

text \<open>The leading markers: a pilcrow, then \<open>#\<close> signs, each with the white space after it.\<close>

definition pilcrow :: char where
  "pilcrow = char_of (182 :: nat)"

definition strip_markers :: "bool \<Rightarrow> string \<Rightarrow> bool \<times> string" where
  "strip_markers p0 txt =
     (let (p1, t1) = (case txt of c # cs \<Rightarrow> if c = pilcrow then (True, dropWhile is_space cs) else (p0, txt)
                                 | [] \<Rightarrow> (p0, txt))
      in (case t1 of c # cs \<Rightarrow>
            if c = CHR ''#'' then (True, dropWhile is_space (dropWhile (\<lambda>x. x = CHR ''#'') t1)) else (p1, t1)
          | [] \<Rightarrow> (p1, t1)))"

definition first_name :: "row \<Rightarrow> string option" where
  "first_name r =
     (case List.map_filter (map_of (r_names r)) [''book_name'', ''bookName'', ''name'', ''Book'', ''BOOK''] of
        [] \<Rightarrow> None | n # ns \<Rightarrow> Some n)"

definition get_prop :: "row \<Rightarrow> string \<Rightarrow> jsval option" where
  "get_prop r k = map_of (r_props r) k"

text \<open>The document of a row: its name, or else the Canon name of its numeric id.\<close>

definition row_book :: "runtime \<Rightarrow> row \<Rightarrow> string option" where
  "row_book rt r =
     (case first_name r of
        Some n \<Rightarrow> if n \<noteq> [] then Some n else
          (let bid = coalesce (map (get_prop r)
                 [''book'', ''book_id'', ''bookid'', ''b'', ''bookNumber'', ''book_number'', ''bookIndex''])
           in if nullish bid then None else bookFromId rt bid)
      | None \<Rightarrow>
          (let bid = coalesce (map (get_prop r)
                 [''book'', ''book_id'', ''bookid'', ''b'', ''bookNumber'', ''book_number'', ''bookIndex''])
           in if nullish bid then None else bookFromId rt bid))"

definition row_chapter :: "runtime \<Rightarrow> row \<Rightarrow> jsnum" where
  "row_chapter rt r = Number_of rt (coalesce (map (get_prop r)
     [''chapter'', ''c'', ''Chapter'', ''CHAPTER'', ''chapter_number'', ''ch'']))"

definition row_verse :: "runtime \<Rightarrow> row \<Rightarrow> jsnum" where
  "row_verse rt r = Number_of rt (coalesce (map (get_prop r)
     [''verse'', ''v'', ''Verse'', ''VERSE'', ''verse_number'', ''vs'']))"

definition row_text :: "runtime \<Rightarrow> row \<Rightarrow> string" where
  "row_text rt r =
     (case coalesce (map (get_prop r) [''text'', ''t'', ''content'', ''body'', ''value'', ''words'']
                     @ [Some (Str [])]) of
        Some v \<Rightarrow> String_of rt v | None \<Rightarrow> [])"

text \<open>
  The loop over the rows: \<open>verses\<close> collects the rows that resolve, \<open>sawBad\<close> records that
  a row was skipped.
\<close>

fun read_rows :: "runtime \<Rightarrow> row list \<Rightarrow> verse list \<times> bool \<Rightarrow> verse list \<times> bool" where
  "read_rows rt [] (verses, sawBad) = (verses, sawBad)"
| "read_rows rt (r # rs) (verses, sawBad) =
     (case row_book rt r of
        None \<Rightarrow> read_rows rt rs (verses, True)
      | Some book \<Rightarrow>
          if \<not> isFinite (row_chapter rt r) \<or> \<not> isFinite (row_verse rt r)
          then read_rows rt rs (verses, True)
          else (let (p, txt) = strip_markers False (row_text rt r)
                in read_rows rt rs
                     (verses @ [\<lparr>v_book = book, v_chapter = fin_val (row_chapter rt r),
                                 v_verse = fin_val (row_verse rt r), v_text = txt,
                                 v_paragraphStart = p\<rparr>], sawBad)))"

text \<open>
  A \<open>Map\<close> whose order of insertion matters is a list of pairs: \<open>set\<close> on a new key
  appends, \<open>set\<close> on a key that is there replaces the value in place.
\<close>

fun map_set :: "'k \<Rightarrow> 'v \<Rightarrow> ('k \<times> 'v) list \<Rightarrow> ('k \<times> 'v) list" where
  "map_set k v [] = [(k, v)]"
| "map_set k v ((k', v') # kvs) = (if k = k' then (k, v) # kvs else (k', v') # map_set k v kvs)"

definition map_has :: "'k \<Rightarrow> ('k \<times> 'v) list \<Rightarrow> bool" where
  "map_has k kvs = (map_of kvs k \<noteq> None)"

type_synonym by_book = "(string \<times> (rat \<times> verse list) list) list"

text \<open>One round of the loop that organizes the verses by book and chapter.\<close>

definition add_verse :: "verse \<Rightarrow> by_book \<Rightarrow> by_book" where
  "add_verse v byBook =
     (let byBook1 = (if \<not> map_has (v_book v) byBook then map_set (v_book v) [] byBook else byBook);
          bm = (case map_of byBook1 (v_book v) of Some m \<Rightarrow> m | None \<Rightarrow> []);
          bm1 = (if \<not> map_has (v_chapter v) bm then map_set (v_chapter v) [] bm else bm);
          arr = (case map_of bm1 (v_chapter v) of Some a \<Rightarrow> a | None \<Rightarrow> [])
      in map_set (v_book v) (map_set (v_chapter v) (arr @ [v]) bm1) byBook1)"

definition organize :: "verse list \<Rightarrow> by_book" where
  "organize verses = fold add_verse verses []"

text \<open>The canonical order: the Canon names that are present, then the other names.\<close>

fun push_missing :: "string list \<Rightarrow> string list \<Rightarrow> string list" where
  "push_missing [] ordered = ordered"
| "push_missing (b # bs) ordered =
     push_missing bs (if b \<in> set ordered then ordered else ordered @ [b])"

definition order_books :: "by_book \<Rightarrow> string list" where
  "order_books byBook =
     (let ordered = push_missing (map fst byBook) (filter (\<lambda>b. map_has b byBook) CANON_66)
      in if ordered \<noteq> [] then ordered else map fst byBook)"

text \<open>
  \<open>Math.max(...chs.keys())\<close>; with no argument it is \<open>-Infinity\<close>, which does not arise
  here since a book of \<open>byBook\<close> has a chapter.
\<close>

fun set_counts :: "by_book \<Rightarrow> (string \<rightharpoonup> rat) \<Rightarrow> (string \<rightharpoonup> rat)" where
  "set_counts [] bc = bc"
| "set_counts ((b, chs) # rest) bc =
     (case map fst chs of
        [] \<Rightarrow> set_counts rest bc
      | k # ks \<Rightarrow> set_counts rest (bc(b \<mapsto> fold max ks k)))"

text \<open>
  The reference map: each chapter sorted by verse number (the sort of an array is
  stable), each verse rebuilt with the book and the chapter of its key.
\<close>

definition stored_chapter :: "string \<Rightarrow> rat \<Rightarrow> verse list \<Rightarrow> verse list" where
  "stored_chapter b c arr2 =
     map (\<lambda>v. \<lparr>v_book = b, v_chapter = c, v_verse = v_verse v, v_text = v_text v,
               v_paragraphStart = v_paragraphStart v\<rparr>) (sort_key v_verse arr2)"

fun set_chapters :: "string \<Rightarrow> (rat \<times> verse list) list \<Rightarrow> (ref_key \<rightharpoonup> verse list)
    \<Rightarrow> (ref_key \<rightharpoonup> verse list)" where
  "set_chapters b [] m = m"
| "set_chapters b ((c, arr2) # chs) m = set_chapters b chs (m((b, c) \<mapsto> stored_chapter b c arr2))"

fun set_refs :: "by_book \<Rightarrow> (ref_key \<rightharpoonup> verse list) \<Rightarrow> (ref_key \<rightharpoonup> verse list)" where
  "set_refs [] m = m"
| "set_refs ((b, chs) # rest) m = set_refs rest (set_chapters b chs m)"

definition ingestSingle :: "runtime \<Rightarrow> bulk \<Rightarrow> data \<Rightarrow> error + data" where
  "ingestSingle rt json d =
     (let arr = (case json of Rows rs \<Rightarrow> rs | Object obj \<Rightarrow> firstArrayInObject obj | Scalar \<Rightarrow> []);
          (verses, sawBad) = read_rows rt arr ([], False)
      in if verses = [] then (if sawBad then Inl UnknownFieldNames else Inl NoVerseRows)
         else (let byBook = organize verses
               in Inr (d\<lparr>books := order_books byBook,
                         bookChapters := set_counts byBook (bookChapters d),
                         singleByRef := Some (set_refs byBook Map.empty)\<rparr>)))"

subsection \<open>Fetching\<close>

text \<open>
  What \<open>fetch\<close> gives for a resource: the request fails (\<open>fetch\<close> throws), the response
  is not \<open>ok\<close>, or it is \<open>ok\<close> with a body; the body comes with what \<open>JSON.parse\<close> makes
  of it (\<open>None\<close> when it is not JSON). The resources are the single file, the canon
  file and the file of a book.
\<close>

datatype 'a response = Failed | NotOk | Body string "'a option"

datatype fetch_target = SingleFile | CanonFile | BookFile string

subsection \<open>The payload of one book\<close>

text \<open>
  The decoded file of a book is read with its aliases resolved and its numbers finite.
  Shape A is \<open>{ chapters: [ { chapter, verses: [ { verse, text, header } ] } ] }\<close>: a
  chapter has its number (\<open>ch.chapter ?? ch.number ?? ch.c\<close>) or none, and its verses
  (\<open>ch.verses || ch.Verses || []\<close>). Shape B is an object whose keys are chapter
  numbers; its values are objects from verse numbers to texts, or something else. Both
  may declare a \<open>chapterCount\<close>. \<open>Falsy\<close> stands for \<open>null\<close>, \<open>0\<close>, the empty string
  and \<open>false\<close>, \<open>TruthyScalar\<close> for every other number, string and \<open>true\<close>.
\<close>

record verseA =
  va_verse :: rat
  va_text :: string
  va_header :: bool

record chapterA =
  ca_chapter :: "rat option"
  ca_verses :: "verseA list"

datatype perbook =
    ShapeA "chapterA list" "rat option"
  | ShapeB "(string \<times> (string \<times> jsval) list option) list" "rat option"
  | Falsy
  | TruthyScalar

definition is_digit :: "char \<Rightarrow> bool" where
  "is_digit c = (48 \<le> (of_char c :: nat) \<and> (of_char c :: nat) \<le> 57)"

text \<open>\<open>Number(s)\<close> for a string of decimal digits.\<close>

definition digits_value :: "string \<Rightarrow> rat" where
  "digits_value ds = of_nat (foldl (\<lambda>n c. 10 * n + (of_char c - 48)) 0 ds)"

definition verse_of_A :: "string \<Rightarrow> rat \<Rightarrow> verseA \<Rightarrow> verse" where
  "verse_of_A book cnum v =
     (let (p, txt) = strip_markers (va_header v) (va_text v)
      in \<lparr>v_book = book, v_chapter = cnum, v_verse = va_verse v, v_text = txt, v_paragraphStart = p\<rparr>)"

fun normalize_A :: "string \<Rightarrow> chapterA list \<Rightarrow> (rat \<times> verse list) list \<Rightarrow> (rat \<times> verse list) list" where
  "normalize_A book [] chapters = chapters"
| "normalize_A book (ch # chs) chapters =
     (let cnum = (case ca_chapter ch of Some n \<Rightarrow> n | None \<Rightarrow> of_nat (length chapters) + 1);
          arr = map (verse_of_A book cnum) (ca_verses ch)
      in normalize_A book chs (map_set cnum (sort_key v_verse arr) chapters))"

definition verse_of_B :: "runtime \<Rightarrow> string \<Rightarrow> rat \<Rightarrow> string \<times> jsval \<Rightarrow> verse" where
  "verse_of_B rt book cnum kv =
     (let (p, txt) = strip_markers False (String_of rt (snd kv))
      in \<lparr>v_book = book, v_chapter = cnum, v_verse = digits_value (fst kv), v_text = txt,
          v_paragraphStart = p\<rparr>)"

fun normalize_B :: "runtime \<Rightarrow> string \<Rightarrow> (string \<times> (string \<times> jsval) list option) list
    \<Rightarrow> (rat \<times> verse list) list \<Rightarrow> (rat \<times> verse list) list" where
  "normalize_B rt book [] chapters = chapters"
| "normalize_B rt book ((k, v) # rest) chapters =
     (case (str_to_num rt k, v) of
        (Fin cnum, Some inner) \<Rightarrow>
          (let arr = map (verse_of_B rt book cnum)
                       (filter (\<lambda>kv. fst kv \<noteq> [] \<and> list_all is_digit (fst kv)) inner)
           in normalize_B rt book rest (map_set cnum (sort_key v_verse arr) chapters))
      | _ \<Rightarrow> normalize_B rt book rest chapters)"

text \<open>
  \<open>_normalizePerBook\<close>: the chapters and the count
  \<open>chapters.size || Number(jb?.chapterCount) || this._bookChapters.get(book) || 1\<close>.
\<close>

definition normalizePerBook :: "runtime \<Rightarrow> data \<Rightarrow> string \<Rightarrow> perbook \<Rightarrow> rat \<times> (rat \<times> verse list) list" where
  "normalizePerBook rt d book jb =
     (let (chapters, declared) =
            (case jb of
               ShapeA chs dc \<Rightarrow> (normalize_A book chs [], dc)
             | ShapeB entries dc \<Rightarrow> (normalize_B rt book entries [], dc)
             | _ \<Rightarrow> ([], None));
          chapterCount =
            (if chapters \<noteq> [] then of_nat (length chapters)
             else (case declared of
                     Some n \<Rightarrow> if n \<noteq> 0 then n else
                       (case bookChapters d book of Some k \<Rightarrow> if k \<noteq> 0 then k else 1 | None \<Rightarrow> 1)
                   | None \<Rightarrow>
                       (case bookChapters d book of Some k \<Rightarrow> if k \<noteq> 0 then k else 1 | None \<Rightarrow> 1)))
      in (chapterCount, chapters))"

text \<open>
  \<open>_fetchMaybe\<close>: \<open>null\<close> when the request fails or the response is not \<open>ok\<close>. The
  promise of \<open>res.json()\<close> is returned without being awaited inside the \<open>try\<close>, so a
  body that is not JSON rejects the call.
\<close>

fun fetchMaybe :: "'a response \<Rightarrow> error + 'a option" where
  "fetchMaybe Failed = Inr None"
| "fetchMaybe NotOk = Inr None"
| "fetchMaybe (Body txt None) = Inl SyntaxError"
| "fetchMaybe (Body txt (Some jb)) = Inr (Some jb)"

text \<open>
  \<open>getChapter\<close> returns the verses or the error it throws, the store after the call,
  and the resources it fetched.
\<close>

definition getChapter :: "runtime \<Rightarrow> (string \<Rightarrow> perbook response) \<Rightarrow> data \<Rightarrow> string \<Rightarrow> rat
    \<Rightarrow> (error + verse list) \<times> data \<times> fetch_target list" where
  "getChapter rt fetch d book ch =
     (let key = (book, ch) in
      case cache d key of
        Some verses \<Rightarrow> (Inr verses, d, [])
      | None \<Rightarrow>
        (case singleByRef d of
           Some m \<Rightarrow>
             (let verses = (case m key of Some vs \<Rightarrow> vs | None \<Rightarrow> [])
              in (Inr verses, d\<lparr>cache := (cache d)(key \<mapsto> verses)\<rparr>, []))
         | None \<Rightarrow>
             (case fetchMaybe (fetch book) of
                Inl e \<Rightarrow> (Inl e, d, [BookFile book])
              | Inr None \<Rightarrow> (Inl (MissingData book), d, [BookFile book])
              | Inr (Some Falsy) \<Rightarrow> (Inl (MissingData book), d, [BookFile book])
              | Inr (Some jb) \<Rightarrow>
                  (let (chapterCount, chapters) = normalizePerBook rt d book jb;
                       d1 = d\<lparr>bookChapters := (bookChapters d)(book \<mapsto> chapterCount)\<rparr>;
                       verses = (case map_of chapters ch of Some vs \<Rightarrow> vs | None \<Rightarrow> [])
                   in (Inr verses, d1\<lparr>cache := (cache d1)(key \<mapsto> verses)\<rparr>, [BookFile book])))))"

subsection \<open>Initialization\<close>

text \<open>
  The surroundings of \<open>init\<close>: the trimmed text of the element \<open>kjv-json\<close> (\<open>None\<close> when
  there is no such element or text) with what \<open>JSON.parse\<close> makes of it, and the
  responses for the single file and for the canon file. The canon payload is an array of
  \<open>{ name, chapters }\<close>, a name with a finite number, or something else.
\<close>

datatype canon = CanonArr "(string \<times> rat) list" | CanonOther

record env =
  inline_raw :: "string option"
  inline_parsed :: "bulk option"
  fetch_single :: "bulk response"
  fetch_canon :: "canon response"

text \<open>The body of the first \<open>try\<close>: the store and \<open>singleLoaded\<close>, or the error thrown.\<close>

definition init_inline :: "runtime \<Rightarrow> env \<Rightarrow> data \<Rightarrow> error + data \<times> bool" where
  "init_inline rt e d =
     (case inline_raw e of
        None \<Rightarrow> Inr (d, False)
      | Some raw \<Rightarrow>
          if raw = [] then Inr (d, False)
          else (case inline_parsed e of
                  None \<Rightarrow> Inl InlineNotParsed
                | Some json \<Rightarrow>
                    (case ingestSingle rt json d of Inl err \<Rightarrow> Inl err | Inr d' \<Rightarrow> Inr (d', True))))"

text \<open>
  The body of the second \<open>try\<close>, entered with \<open>singleLoaded\<close> false; the test for a page
  of HTML is \<open>/<html/i.test(text.slice(0,512))\<close>.
\<close>

definition init_single :: "runtime \<Rightarrow> env \<Rightarrow> data \<Rightarrow> error + data \<times> bool" where
  "init_single rt e d =
     (case fetch_single e of
        Failed \<Rightarrow> Inl FetchFailed
      | NotOk \<Rightarrow> Inr (d, False)
      | Body txt parsed \<Rightarrow>
          if includes_str (toLowerCase (take 512 txt)) ''<html'' then Inl LooksLikeHtml
          else (case parsed of
                  None \<Rightarrow> Inl SyntaxError
                | Some json \<Rightarrow>
                    (case ingestSingle rt json d of Inl err \<Rightarrow> Inl err | Inr d' \<Rightarrow> Inr (d', True))))"

text \<open>The third step: the canon file when it holds an array, else the built-in table.\<close>

fun set_canon_counts :: "(string \<times> rat) list \<Rightarrow> (string \<rightharpoonup> rat) \<Rightarrow> (string \<rightharpoonup> rat)" where
  "set_canon_counts [] bc = bc"
| "set_canon_counts ((name, chapters) # rest) bc = set_canon_counts rest (bc(name \<mapsto> chapters))"

definition init_canon :: "env \<Rightarrow> data \<Rightarrow> data" where
  "init_canon e d =
     (let canon = (case fetch_canon e of Body txt (Some c) \<Rightarrow> Some c | _ \<Rightarrow> None)
      in case canon of
           Some (CanonArr entries) \<Rightarrow>
             d\<lparr>books := map fst entries,
               bookChapters := set_canon_counts entries (bookChapters d)\<rparr>
         | _ \<Rightarrow> d\<lparr>books := CANON_66, bookChapters := map_of BUILT_IN_CANON\<rparr>)"

text \<open>
  \<open>init\<close> returns the store, the resources fetched and the errors written to the
  console, in this order. Each statement that can throw stands in a \<open>try\<close> whose
  handler logs (or ignores) the error and goes on.
\<close>

definition init :: "runtime \<Rightarrow> env \<Rightarrow> data \<Rightarrow> data \<times> fetch_target list \<times> error list" where
  "init rt e d =
     (let (d1, loaded1, log1) =
            (case init_inline rt e d of
               Inr (d', l) \<Rightarrow> (d', l, [])
             | Inl err \<Rightarrow> (d, False, [err]));
          (d2, loaded2, fetched2, log2) =
            (if \<not> loaded1 then
               (case init_single rt e d1 of
                  Inr (d', l) \<Rightarrow> (d', l, [SingleFile], log1)
                | Inl err \<Rightarrow> (d1, False, [SingleFile], log1 @ [err]))
             else (d1, loaded1, [], log1))
      in if \<not> loaded2 then (init_canon e d2, fetched2 @ [CanonFile], log2)
         else (d2, fetched2, log2))"

subsection \<open>Resolving a name\<close>

text \<open>
  \<open>resolveBook\<close>: \<open>norm\<close> puts the name in lower case, drops its white space and turns a
  leading \<open>1st\<close>, \<open>2nd\<close> or \<open>3rd\<close> into its digit. \<open>find\<close> gives the first book that
  fits; an empty name found by the first \<open>find\<close> is falsy, so the second is tried.
\<close>

definition norm :: "string \<Rightarrow> string" where
  "norm s =
     (let t = filter (\<lambda>c. \<not> is_space c) (toLowerCase s)
      in if prefix ''1st'' t \<or> prefix ''2nd'' t \<or> prefix ''3rd'' t then hd t # drop 3 t else t)"

definition resolveBook :: "data \<Rightarrow> string \<Rightarrow> string option" where
  "resolveBook d q =
     (let n = norm q
      in case find (\<lambda>b. norm b = n) (books d) of
           Some b \<Rightarrow> if b \<noteq> [] then Some b else find (\<lambda>b. prefix n (norm b)) (books d)
         | None \<Rightarrow> find (\<lambda>b. prefix n (norm b)) (books d))"

section \<open>The reference parser\<close>

text \<open>
  \<open>BOOK_ALIASES[key]\<close>. The table is an object literal, so the key \<open>constructor\<close> reads
  the function it inherits (no other inherited name is in lower case): \<open>Inherited\<close>.
\<close>

datatype alias_entry = Alias string | Inherited | NoAlias

definition BOOK_ALIASES :: "string \<Rightarrow> alias_entry" where
  "BOOK_ALIASES key =
     (case map_of
        [(''ps'', ''Psalms''), (''psalm'', ''Psalms''), (''psalms'', ''Psalms''),
         (''jn'', ''John''), (''mk'', ''Mark''), (''mt'', ''Matthew''), (''lk'', ''Luke''),
         (''gen'', ''Genesis''), (''ex'', ''Exodus''), (''lev'', ''Leviticus''),
         (''num'', ''Numbers''), (''deut'', ''Deuteronomy'')] key of
        Some n \<Rightarrow> Alias n
      | None \<Rightarrow> if key = ''constructor'' then Inherited else NoAlias)"

definition is_alpha_dot :: "char \<Rightarrow> bool" where
  "is_alpha_dot c =
     (let n = of_char c :: nat in (65 \<le> n \<and> n \<le> 90) \<or> (97 \<le> n \<and> n \<le> 122) \<or> c = CHR ''.'')"

text \<open>
  The match of \<open>/^\s*([1-3]?\s*[A-Za-z.]+)\s+(\d+)(?::(\d+))?\s*$/\<close>: the groups 1, 2
  and 3, or \<open>None\<close> when the string does not match. Neighbouring parts of the pattern
  accept disjoint characters, so the longest match of each part is the only one.
\<close>

definition match_ref :: "string \<Rightarrow> (string \<times> string \<times> string option) option" where
  "match_ref s =
     (let s1 = dropWhile is_space s;
          (d, s2) = (case s1 of
                       c # cs \<Rightarrow> if c = CHR ''1'' \<or> c = CHR ''2'' \<or> c = CHR ''3'' then ([c], cs) else ([], s1)
                     | [] \<Rightarrow> ([], s1));
          ws = takeWhile is_space s2;
          s3 = dropWhile is_space s2;
          name = takeWhile is_alpha_dot s3;
          s4 = dropWhile is_alpha_dot s3;
          s5 = dropWhile is_space s4;
          ch = takeWhile is_digit s5;
          s6 = dropWhile is_digit s5;
          (vs, s7) = (case s6 of
                        c # cs \<Rightarrow> if c = CHR '':'' \<and> takeWhile is_digit cs \<noteq> []
                                  then (Some (takeWhile is_digit cs), dropWhile is_digit cs)
                                  else (None, s6)
                      | [] \<Rightarrow> (None, s6))
      in if name \<noteq> [] \<and> takeWhile is_space s4 \<noteq> [] \<and> ch \<noteq> [] \<and> dropWhile is_space s7 = []
         then Some (d @ ws @ name, ch, vs) else None)"

record reference =
  ref_book :: string
  ref_chapter :: rat
  ref_verse :: "rat option"

definition parseRef :: "data \<Rightarrow> string \<Rightarrow> reference option" where
  "parseRef d s =
     (if s = [] then None
      else case match_ref s of
        None \<Rightarrow> None
      | Some (m1, m2, m3) \<Rightarrow>
          (let b0 = trim (filter (\<lambda>c. c \<noteq> CHR ''.'') m1);
               key = toLowerCase b0
           in case (case BOOK_ALIASES key of
                      Alias n \<Rightarrow> Some n
                    | Inherited \<Rightarrow> None
                    | NoAlias \<Rightarrow>
                        (case resolveBook d b0 of
                           Some r \<Rightarrow> if r \<noteq> [] then Some r else Some b0
                         | None \<Rightarrow> Some b0)) of
                None \<Rightarrow> None
              | Some b \<Rightarrow>
                  if \<not> hasBook d b then None
                  else Some \<lparr>ref_book = b,
                             ref_chapter = min (max 1 (digits_value m2)) (chapterCount d b),
                             ref_verse = map_option digits_value m3\<rparr>))"

section \<open>Notions used to state the properties\<close>

text \<open>
  The verses in the order in which the scan reads them when nothing stops it: book by
  book in the order of the metadata, chapter by chapter from 1, verse by verse in the
  order of the chapter.
\<close>

definition traversal :: "index_meta \<Rightarrow> chapter_source \<Rightarrow> (string \<times> nat \<times> verse) list" where
  "traversal meta chap =
     concat (map (\<lambda>bi. concat (map (\<lambda>c. map (\<lambda>v. (m_books meta ! bi, c, v)) (chap (m_books meta ! bi) c))
                                   (chapter_numbers (count_at meta bi))))
                 [0..<length (m_books meta)])"



text \<open>The hits of one chapter and of one book, and the number of hits at which the scan stops.\<close>

definition hits_of :: "string list \<Rightarrow> string \<Rightarrow> nat \<Rightarrow> verse list \<Rightarrow> hit list" where
  "hits_of tokens b c vs =
     map (make_hit tokens b c) (filter (\<lambda>v. verse_ok (toLowerCase (v_text v)) tokens) vs)"

definition book_hits :: "chapter_source \<Rightarrow> string list \<Rightarrow> index_meta \<Rightarrow> nat \<Rightarrow> hit list" where
  "book_hits chap tokens meta bi =
     concat (map (\<lambda>c. hits_of tokens (m_books meta ! bi) c (chap (m_books meta ! bi) c))
       (chapter_numbers (count_at meta bi)))"

definition cap :: "int \<Rightarrow> nat" where
  "cap limit = max 1 (nat limit)"

text \<open>
  A small corpus for the concrete cases: the documents Genesis and John, with the first
  two verses of Genesis 1.
\<close>

definition example_meta :: index_meta where
  "example_meta = \<lparr>m_books = [''Genesis'', ''John''], m_chapterCounts = [2, 1]\<rparr>"

definition example_corpus :: chapter_source where
  "example_corpus b c =
     (if b = ''Genesis'' \<and> c = 1 then
        [\<lparr>v_book = ''Genesis'', v_chapter = 1, v_verse = 1,
          v_text = ''In the beginning God created the heaven and the earth.'',
          v_paragraphStart = False\<rparr>,
         \<lparr>v_book = ''Genesis'', v_chapter = 1, v_verse = 2,
          v_text = ''And the earth was without form, and void.'',
          v_paragraphStart = False\<rparr>]
      else [])"

text \<open>
  Reading the grouping \<open>byBook\<close>; the verses of one book and chapter among a list of
  verses; the names of a list, each once, in the order of their first occurrence.
\<close>

definition lookup2 :: "by_book \<Rightarrow> string \<Rightarrow> rat \<Rightarrow> verse list option" where
  "lookup2 byBook b c = (case map_of byBook b of None \<Rightarrow> None | Some chs \<Rightarrow> map_of chs c)"

definition chapter_rows :: "verse list \<Rightarrow> string \<Rightarrow> rat \<Rightarrow> verse list" where
  "chapter_rows vs b c = filter (\<lambda>v. v_book v = b \<and> v_chapter v = c) vs"

definition encounter_order :: "'a list \<Rightarrow> 'a list" where
  "encounter_order xs = rev (remdups (rev xs))"

text \<open>In every book of the grouping, a chapter number occurs once.\<close>

definition inner_distinct :: "by_book \<Rightarrow> bool" where
  "inner_distinct bb = (\<forall>(b, chs) \<in> set bb. distinct (map fst chs))"


text \<open>
  The rows of a payload; a row is usable when its document resolves and its chapter and
  verse numbers are finite; the verse of a usable row; the verses that survive.
\<close>

definition payload_rows :: "bulk \<Rightarrow> row list" where
  "payload_rows json = (case json of Rows rs \<Rightarrow> rs | Object obj \<Rightarrow> firstArrayInObject obj | Scalar \<Rightarrow> [])"

definition usable :: "runtime \<Rightarrow> row \<Rightarrow> bool" where
  "usable rt r = (row_book rt r \<noteq> None \<and> isFinite (row_chapter rt r) \<and> isFinite (row_verse rt r))"

definition verse_of_row :: "runtime \<Rightarrow> row \<Rightarrow> verse" where
  "verse_of_row rt r =
     \<lparr>v_book = (case row_book rt r of Some b \<Rightarrow> b | None \<Rightarrow> []),
      v_chapter = fin_val (row_chapter rt r),
      v_verse = fin_val (row_verse rt r),
      v_text = snd (strip_markers False (row_text rt r)),
      v_paragraphStart = fst (strip_markers False (row_text rt r))\<rparr>"

definition kept_verses :: "runtime \<Rightarrow> row list \<Rightarrow> verse list" where
  "kept_verses rt rows = map (verse_of_row rt) (filter (usable rt) rows)"


definition single_lookup :: "data \<Rightarrow> string \<Rightarrow> rat \<Rightarrow> verse list option" where
  "single_lookup d b c = (case singleByRef d of Some m \<Rightarrow> m (b, c) | None \<Rightarrow> None)"

text \<open>
  A bulk payload for the concrete cases: rows out of order, a document outside the
  Canon table, a verse number given twice and one left out, a row that names its document
  by number, and a row without any known field. The store is the one \<open>app.js\<close>
  constructs. The conversions between strings and numbers play no part in the examples.
\<close>

definition example_runtime :: runtime where
  "example_runtime = \<lparr>str_to_num = (\<lambda>s. NaN), num_to_str = (\<lambda>n. [])\<rparr>"

definition example_row :: "string \<Rightarrow> rat \<Rightarrow> rat \<Rightarrow> string \<Rightarrow> row" where
  "example_row n c v t =
     \<lparr>r_names = [(''book_name'', n)],
      r_props = [(''chapter'', Num (Fin c)), (''verse'', Num (Fin v)), (''text'', Str t)]\<rparr>"

definition example_rows :: "row list" where
  "example_rows =
     [example_row ''John'' 1 2 ''He was in the beginning with God.'',
      example_row ''Zed'' 1 1 ''An unknown document.'',
      example_row ''Genesis'' 1 3 ''And God said, Let there be light.'',
      example_row ''Genesis'' 1 1 ''In the beginning God created the heaven and the earth.'',
      example_row ''Genesis'' 1 1 ''In the beginning, again.'',
      \<lparr>r_names = [], r_props = [(''b'', Num (Fin 2)), (''c'', Num (Fin 3)), (''v'', Num (Fin 1))]\<rparr>,
      \<lparr>r_names = [], r_props = [(''foo'', Str ''bar'')]\<rparr>]"

definition app_data :: data where
  "app_data = new_Data ''data/kjv.json'' ''data/books/'' ''data/canon.json''"

definition example_store :: data where
  "example_store =
     (case ingestSingle example_runtime (Rows example_rows) app_data of Inr d \<Rightarrow> d | Inl e \<Rightarrow> app_data)"

text \<open>
  The (document, chapter, verse) triples of the chapter that \<open>getChapter\<close> returns from
  a store (no file of a book is available).
\<close>

definition chapter_refs :: "data \<Rightarrow> string \<Rightarrow> rat \<Rightarrow> (string \<times> rat \<times> rat) list" where
  "chapter_refs d b c =
     (case fst (getChapter example_runtime (\<lambda>b. NotOk) d b c) of
        Inr vs \<Rightarrow> map (\<lambda>v. (v_book v, v_chapter v, v_verse v)) vs
      | Inl e \<Rightarrow> [])"

text \<open>
  The order of the hits: by the place of the document in a list of names, then by
  chapter number, then by verse number. \<open>position x xs\<close> is the index of the first
  \<open>x\<close> in \<open>xs\<close>.
\<close>

fun position :: "'a \<Rightarrow> 'a list \<Rightarrow> nat" where
  "position x [] = 0"
| "position x (y # ys) = (if x = y then 0 else Suc (position x ys))"

definition hit_le :: "string list \<Rightarrow> hit \<Rightarrow> hit \<Rightarrow> bool" where
  "hit_le bs h1 h2 =
     (position (h_book h1) bs < position (h_book h2) bs \<or>
      (position (h_book h1) bs = position (h_book h2) bs \<and>
       (h_chapter h1 < h_chapter h2 \<or> (h_chapter h1 = h_chapter h2 \<and> h_verse h1 \<le> h_verse h2))))"

definition triple_le :: "string list \<Rightarrow> string \<times> nat \<times> verse \<Rightarrow> string \<times> nat \<times> verse \<Rightarrow> bool" where
  "triple_le bs x y =
     (position (fst x) bs < position (fst y) bs \<or>
      (position (fst x) bs = position (fst y) bs \<and>
       (fst (snd x) < fst (snd y) \<or>
        (fst (snd x) = fst (snd y) \<and> v_verse (snd (snd x)) \<le> v_verse (snd (snd y))))))"

text \<open>
  The chapters the owning context answers with: what \<open>getChapter\<close> returns from the
  store \<open>d\<close> for the chapter number \<open>c\<close> (an error leaves the request without verses).
\<close>

definition store_source :: "runtime \<Rightarrow> (string \<Rightarrow> perbook response) \<Rightarrow> data \<Rightarrow> chapter_source" where
  "store_source rt fetch d b c =
     (case fst (getChapter rt fetch d b (of_nat c)) of Inr vs \<Rightarrow> vs | Inl e \<Rightarrow> [])"

text \<open>
  The payload a response for the file of a book delivers, if any: none when the request
  fails, when the response is not \<open>ok\<close>, when the body is not JSON, and when the body
  decodes to \<open>null\<close>, \<open>0\<close>, the empty string or \<open>false\<close>.
\<close>

fun payload_of :: "perbook response \<Rightarrow> perbook option" where
  "payload_of Failed = None"
| "payload_of NotOk = None"
| "payload_of (Body txt None) = None"
| "payload_of (Body txt (Some Falsy)) = None"
| "payload_of (Body txt (Some jb)) = Some jb"



text \<open>
  Surroundings for the concrete cases: no inline payload, no single file and no canon
  file, so that the store works from the files of the books; the file of Genesis has two
  chapters, no other book has a file. In \<open>single_env\<close> the inline text is not JSON and
  the single file holds the example rows.
\<close>

definition no_sources :: env where
  "no_sources = \<lparr>inline_raw = None, inline_parsed = None, fetch_single = NotOk, fetch_canon = Failed\<rparr>"


definition split_store :: data where
  "split_store = fst (init example_runtime no_sources app_data)"

definition example_book :: perbook where
  "example_book =
     ShapeA
       [\<lparr>ca_chapter = Some 1,
         ca_verses = [\<lparr>va_verse = 2, va_text = ''And the earth was without form, and void.'', va_header = False\<rparr>,
                      \<lparr>va_verse = 1, va_text = ''In the beginning God created the heaven and the earth.'',
                       va_header = True\<rparr>]\<rparr>,
        \<lparr>ca_chapter = Some 2,
         ca_verses = [\<lparr>va_verse = 1, va_text = ''Thus the heavens and the earth were finished.'',
                       va_header = False\<rparr>]\<rparr>]
       None"

definition example_fetch :: "string \<Rightarrow> perbook response" where
  "example_fetch b = (if b = ''Genesis'' then Body ''{ ... }'' (Some example_book) else NotOk)"

text \<open>
  A reference string of the form \<open><book-token> <chapter>[:<verse>]\<close>: white space
  around it, a book token made of an optional digit 1 to 3 with white space after it
  (\<open>pre\<close>) and of letters and dots (\<open>name\<close>), white space, the digits of the chapter, and
  optionally a colon and the digits of the verse.
\<close>

definition ref_form :: "string \<Rightarrow> string \<Rightarrow> string \<Rightarrow> string \<Rightarrow> string \<Rightarrow> string option \<Rightarrow> string \<Rightarrow> bool" where
  "ref_form lead pre name ws ds vs trail =
     (list_all is_space lead \<and> list_all is_space trail \<and>
      (pre = [] \<or> (hd pre = CHR ''1'' \<or> hd pre = CHR ''2'' \<or> hd pre = CHR ''3'') \<and> list_all is_space (tl pre)) \<and>
      name \<noteq> [] \<and> list_all is_alpha_dot name \<and>
      ws \<noteq> [] \<and> list_all is_space ws \<and>
      ds \<noteq> [] \<and> list_all is_digit ds \<and>
      (case vs of None \<Rightarrow> True | Some v \<Rightarrow> v \<noteq> [] \<and> list_all is_digit v))"

definition ref_string :: "string \<Rightarrow> string \<Rightarrow> string \<Rightarrow> string \<Rightarrow> string \<Rightarrow> string option \<Rightarrow> string \<Rightarrow> string" where
  "ref_string lead pre name ws ds vs trail =
     lead @ pre @ name @ ws @ ds @ (case vs of None \<Rightarrow> [] | Some v \<Rightarrow> CHR '':'' # v) @ trail"


section \<open>Properties of the search worker\<close>

subsection \<open>Strings and tokens\<close>



lemma lower_char_idem: "lower_char (lower_char c) = lower_char c"
  by (simp add: lower_char_def Let_def)

lemma toLowerCase_idem: "toLowerCase (toLowerCase s) = toLowerCase s"
  by (simp add: toLowerCase_def lower_char_idem)





subsection \<open>The scan stops at the limit\<close>

lemma cap_test:
  "length r < cap limit \<Longrightarrow> (limit \<le> int (Suc (length r))) \<longleftrightarrow> cap limit \<le> Suc (length r)"
  by (auto simp: cap_def max_def)

lemma scan_verses_eq:
  "length r < cap limit \<Longrightarrow>
   scan_verses tokens limit b c vs r =
     (take (cap limit) (r @ hits_of tokens b c vs), cap limit \<le> length (r @ hits_of tokens b c vs))"
proof (induction vs arbitrary: r)
  case Nil
  then show ?case by (simp add: hits_of_def)
next
  case (Cons v vs)
  show ?case
  proof (cases "verse_ok (toLowerCase (v_text v)) tokens")
    case False
    with Cons show ?thesis by (simp add: hits_of_def)
  next
    case True
    show ?thesis
    proof (cases "cap limit \<le> Suc (length r)")
      case True
      with Cons.prems have "cap limit = Suc (length r)" by simp
      with \<open>verse_ok _ _\<close> Cons.prems show ?thesis
        using cap_test[of r limit] by (simp add: hits_of_def Let_def)
    next
      case False
      then have "length (r @ [make_hit tokens b c v]) < cap limit" by simp
      from Cons.IH[OF this] False \<open>verse_ok _ _\<close> Cons.prems show ?thesis
        using cap_test[of r limit] by (simp add: hits_of_def Let_def)
    qed
  qed
qed

lemma scan_chapters_eq:
  "length r < cap limit \<Longrightarrow>
   scan_chapters chap tokens limit b cs r =
     (take (cap limit) (r @ concat (map (\<lambda>c. hits_of tokens b c (chap b c)) cs)),
      cap limit \<le> length (r @ concat (map (\<lambda>c. hits_of tokens b c (chap b c)) cs)))"
proof (induction cs arbitrary: r)
  case Nil
  then show ?case by simp
next
  case (Cons c cs)
  let ?h = "hits_of tokens b c (chap b c)"
  show ?case
  proof (cases "cap limit \<le> length (r @ ?h)")
    case True
    with Cons.prems show ?thesis by (simp add: scan_verses_eq)
  next
    case False
    then have "length (r @ ?h) < cap limit" by simp
    from Cons.IH[OF this] False Cons.prems show ?thesis by (simp add: scan_verses_eq)
  qed
qed

lemma scan_books_eq:
  "length r < cap limit \<Longrightarrow>
   scan_books chap tokens limit meta bis r =
     take (cap limit) (r @ concat (map (book_hits chap tokens meta) bis))"
proof (induction bis arbitrary: r)
  case Nil
  then show ?case by simp
next
  case (Cons bi bis)
  let ?h = "book_hits chap tokens meta bi"
  show ?case
  proof (cases "cap limit \<le> length (r @ ?h)")
    case True
    with Cons.prems show ?thesis by (simp add: scan_chapters_eq book_hits_def)
  next
    case False
    then have "length (r @ ?h) < cap limit" by simp
    from Cons.IH[OF this] False Cons.prems show ?thesis
      by (simp add: scan_chapters_eq book_hits_def)
  qed
qed

lemma cap_mono: "n \<le> m \<Longrightarrow> cap n \<le> cap m"
  unfolding cap_def by (rule max.mono) (simp_all add: nat_mono)

lemma prefix_take_take: "a \<le> b \<Longrightarrow> prefix (take a xs) (take b xs)"
proof -
  assume "a \<le> b"
  then have "take a xs = take a (take b xs)" by (simp add: min_def)
  then show ?thesis by (metis take_is_prefix)
qed

lemma book_hits_traversal:
  "concat (map (book_hits chap tokens meta) bis) =
   map (\<lambda>(b, c, v). make_hit tokens b c v)
     (filter (\<lambda>(b, c, v). verse_ok (toLowerCase (v_text v)) tokens)
        (concat (map (\<lambda>bi. concat (map (\<lambda>c. map (\<lambda>v. (m_books meta ! bi, c, v)) (chap (m_books meta ! bi) c))
                                   (chapter_numbers (count_at meta bi)))) bis)))"
  by (induction bis) (simp_all add: book_hits_def hits_of_def map_concat filter_concat filter_map comp_def)

lemma search_eq_take:
  "search meta chap q limit =
     take (if tokenize q = [] then 0 else cap limit)
       (map (\<lambda>(b, c, v). make_hit (tokenize q) b c v)
          (filter (\<lambda>(b, c, v). verse_ok (toLowerCase (v_text v)) (tokenize q))
             (traversal meta chap)))"
proof (cases "tokenize q = []")
  case True
  then show ?thesis by (simp add: search_def)
next
  case False
  have "0 < cap limit" by (simp add: cap_def)
  then have "scan_books chap (tokenize q) limit meta [0..<length (m_books meta)] [] =
     take (cap limit) (concat (map (book_hits chap (tokenize q) meta) [0..<length (m_books meta)]))"
    using scan_books_eq[of "[]" limit chap "tokenize q" meta] by simp
  with False show ?thesis
    by (simp add: search_def Let_def book_hits_traversal traversal_def)
qed


section \<open>Properties of single-source ingestion\<close>

subsection \<open>The grouping by book and chapter\<close>

lemma map_of_map_set: "map_of (map_set k v kvs) = (map_of kvs)(k \<mapsto> v)"
  by (induction kvs) (auto simp: fun_eq_iff)

lemma keys_map_set:
  "map fst (map_set k v kvs) = (if k \<in> fst ` set kvs then map fst kvs else map fst kvs @ [k])"
proof (induction kvs)
  case Nil
  show ?case by simp
next
  case (Cons p kvs)
  obtain k' v' where p: "p = (k', v')" by (cases p)
  show ?case
  proof (cases "k = k'")
    case True
    then show ?thesis by (simp add: p)
  next
    case False
    with Cons show ?thesis by (simp add: p)
  qed
qed

lemma map_has_iff: "map_has k kvs \<longleftrightarrow> k \<in> fst ` set kvs"
  by (simp add: map_has_def map_of_eq_None_iff)

lemma keys_add_verse:
  "map fst (add_verse v bb) =
     (if v_book v \<in> fst ` set bb then map fst bb else map fst bb @ [v_book v])"
proof (cases "v_book v \<in> fst ` set bb")
  case True
  then show ?thesis by (simp add: add_verse_def Let_def keys_map_set map_has_iff)
next
  case False
  then have "v_book v \<in> fst ` set (map_set (v_book v) [] bb)"
    using keys_map_set[of "v_book v" "[]" bb] by (metis image_set in_set_conv_decomp)
  with False show ?thesis by (simp add: add_verse_def Let_def keys_map_set map_has_iff)
qed

lemma lookup2_add_verse:
  "lookup2 (add_verse v bb) b c =
     (if b = v_book v \<and> c = v_chapter v
      then Some ((case lookup2 bb b c of None \<Rightarrow> [] | Some a \<Rightarrow> a) @ [v])
      else lookup2 bb b c)"
  by (auto simp: add_verse_def Let_def lookup2_def map_of_map_set map_has_def split: option.splits)

lemma organize_snoc: "organize (vs @ [v]) = add_verse v (organize vs)"
  by (simp add: organize_def)

lemma lookup2_organize:
  "lookup2 (organize vs) b c = (if chapter_rows vs b c = [] then None else Some (chapter_rows vs b c))"
proof (induction vs rule: rev_induct)
  case Nil
  show ?case by (simp add: organize_def lookup2_def chapter_rows_def)
next
  case (snoc v vs)
  then show ?case
    by (auto simp: organize_snoc lookup2_add_verse chapter_rows_def)
qed

lemma keys_organize: "map fst (organize vs) = encounter_order (map v_book vs)"
proof (induction vs rule: rev_induct)
  case Nil
  show ?case by (simp add: organize_def encounter_order_def)
next
  case (snoc v vs)
  have "fst ` set (organize vs) = set (map fst (organize vs))" by simp
  also have "\<dots> = v_book ` set vs" using snoc by (simp add: encounter_order_def)
  finally show ?case using snoc
    by (auto simp: organize_snoc keys_add_verse encounter_order_def)
qed

lemma distinct_keys_organize: "distinct (map fst (organize vs))"
  by (simp add: keys_organize encounter_order_def)

lemma distinct_map_set: "distinct (map fst kvs) \<Longrightarrow> distinct (map fst (map_set k v kvs))"
  by (simp add: keys_map_set)

lemma map_set_in:
  "(k', v') \<in> set (map_set k v kvs) \<Longrightarrow> (k', v') = (k, v) \<or> (k', v') \<in> set kvs"
  by (induction kvs) (auto split: if_splits)

lemma inner_distinct_map_set:
  "inner_distinct bb \<Longrightarrow> distinct (map fst chs) \<Longrightarrow> inner_distinct (map_set b chs bb)"
  unfolding inner_distinct_def by (auto dest!: map_set_in)

lemma inner_distinct_lookup:
  "inner_distinct bb \<Longrightarrow> distinct (map fst (case map_of bb b of Some m \<Rightarrow> m | None \<Rightarrow> []))"
  unfolding inner_distinct_def by (auto split: option.splits dest!: map_of_SomeD)

lemma inner_distinct_add_verse:
  assumes "inner_distinct bb"
  shows "inner_distinct (add_verse v bb)"
proof -
  let ?bb1 = "if \<not> map_has (v_book v) bb then map_set (v_book v) [] bb else bb"
  have 1: "inner_distinct ?bb1" using assms by (simp add: inner_distinct_map_set)
  let ?bm = "case map_of ?bb1 (v_book v) of Some m \<Rightarrow> m | None \<Rightarrow> []"
  have 2: "distinct (map fst ?bm)" using 1 by (rule inner_distinct_lookup)
  let ?bm1 = "if \<not> map_has (v_chapter v) ?bm then map_set (v_chapter v) [] ?bm else ?bm"
  have 3: "distinct (map fst ?bm1)" using 2 by (simp add: distinct_map_set)
  have "distinct (map fst (map_set (v_chapter v)
          ((case map_of ?bm1 (v_chapter v) of Some a \<Rightarrow> a | None \<Rightarrow> []) @ [v]) ?bm1))"
    using 3 by (rule distinct_map_set)
  with 1 show ?thesis
    unfolding add_verse_def Let_def by (rule inner_distinct_map_set)
qed

lemma inner_distinct_organize: "inner_distinct (organize vs)"
proof (induction vs rule: rev_induct)
  case Nil
  show ?case by (simp add: organize_def inner_distinct_def)
next
  case (snoc v vs)
  then show ?case by (simp add: organize_snoc inner_distinct_add_verse)
qed


subsection \<open>What ingestion stores\<close>

lemma read_rows_eq:
  "read_rows rt rs (vs, bad) =
     (vs @ kept_verses rt rs, bad \<or> (\<exists>r\<in>set rs. \<not> usable rt r))"
proof (induction rs arbitrary: vs bad)
  case Nil
  show ?case by (simp add: kept_verses_def)
next
  case (Cons r rs)
  show ?case
  proof (cases "usable rt r")
    case True
    then obtain b where b: "row_book rt r = Some b" by (auto simp: usable_def)
    from True b show ?thesis
      by (simp add: Cons.IH kept_verses_def usable_def verse_of_row_def split_def Let_def)
  next
    case False
    then show ?thesis
      by (cases "row_book rt r") (auto simp: Cons.IH kept_verses_def usable_def)
  qed
qed

lemma set_chapters_eq:
  "distinct (map fst chs) \<Longrightarrow>
   set_chapters b chs m (b', c) =
     (if b' = b then (case map_of chs c of Some arr \<Rightarrow> Some (stored_chapter b c arr) | None \<Rightarrow> m (b', c))
      else m (b', c))"
proof (induction chs arbitrary: m)
  case Nil
  show ?case by simp
next
  case (Cons p chs)
  obtain c0 arr0 where p: "p = (c0, arr0)" by (cases p)
  from Cons.prems have d: "distinct (map fst chs)" and n: "c0 \<notin> fst ` set chs" by (auto simp: p)
  from n have "map_of chs c0 = None" by (simp add: map_of_eq_None_iff)
  then show ?case using Cons.IH[OF d] by (auto simp: p split: option.splits)
qed

lemma set_refs_eq:
  "distinct (map fst bb) \<Longrightarrow> inner_distinct bb \<Longrightarrow>
   set_refs bb m (b, c) =
     (case lookup2 bb b c of Some arr \<Rightarrow> Some (stored_chapter b c arr) | None \<Rightarrow> m (b, c))"
proof (induction bb arbitrary: m)
  case Nil
  show ?case by (simp add: lookup2_def)
next
  case (Cons p bb)
  obtain b0 chs0 where p: "p = (b0, chs0)" by (cases p)
  from Cons.prems have d: "distinct (map fst bb)" and n: "b0 \<notin> fst ` set bb"
    and i: "inner_distinct bb" and c0: "distinct (map fst chs0)"
    by (auto simp: p inner_distinct_def)
  from n have none: "map_of bb b0 = None" by (simp add: map_of_eq_None_iff)
  show ?case
  proof (cases "b = b0")
    case True
    have p': "p = (b, chs0)" using p True by simp
    from none True have "lookup2 bb b c = None" by (simp add: lookup2_def)
    then show ?thesis
      using Cons.IH[OF d i, of "set_chapters b chs0 m"] set_chapters_eq[OF c0, of b m b c]
      by (simp add: p' lookup2_def)
  next
    case False
    then show ?thesis
      using Cons.IH[OF d i, of "set_chapters b0 chs0 m"] set_chapters_eq[OF c0, of b0 m b c]
      by (simp add: p lookup2_def split: option.splits)
  qed
qed

lemma stored_chapter_id:
  "stored_chapter b c (chapter_rows vs b c) = sort_key v_verse (chapter_rows vs b c)"
proof -
  have "\<forall>v\<in>set (sort_key v_verse (chapter_rows vs b c)). v_book v = b \<and> v_chapter v = c"
    by (simp add: chapter_rows_def)
  then show ?thesis unfolding stored_chapter_def by (intro map_idI) simp
qed

lemma refs_organize:
  "set_refs (organize vs) Map.empty (b, c) =
     (if chapter_rows vs b c = [] then None else Some (sort_key v_verse (chapter_rows vs b c)))"
  by (simp add: set_refs_eq distinct_keys_organize inner_distinct_organize lookup2_organize stored_chapter_id)

lemma ingestSingle_eq:
  "ingestSingle rt json d =
     (let kept = kept_verses rt (payload_rows json)
      in if kept = [] then (if payload_rows json \<noteq> [] then Inl UnknownFieldNames else Inl NoVerseRows)
         else Inr (d\<lparr>books := order_books (organize kept),
                     bookChapters := set_counts (organize kept) (bookChapters d),
                     singleByRef := Some (set_refs (organize kept) Map.empty)\<rparr>))"
proof -
  have "kept_verses rt (payload_rows json) = [] \<Longrightarrow>
        (\<exists>r\<in>set (payload_rows json). \<not> usable rt r) \<longleftrightarrow> payload_rows json \<noteq> []"
    by (cases "payload_rows json") (auto simp: kept_verses_def filter_empty_conv)
  then show ?thesis
    by (auto simp: ingestSingle_def payload_rows_def[symmetric] read_rows_eq Let_def)
qed

lemma push_missing_eq:
  "distinct ks \<Longrightarrow> push_missing ks ordered = ordered @ filter (\<lambda>b. b \<notin> set ordered) ks"
proof (induction ks arbitrary: ordered)
  case Nil
  show ?case by simp
next
  case (Cons k ks)
  then have d: "distinct ks" and n: "k \<notin> set ks" by auto
  show ?case
  proof (cases "k \<in> set ordered")
    case True
    then show ?thesis by (simp add: Cons.IH[OF d])
  next
    case False
    have "filter (\<lambda>b. b \<notin> set (ordered @ [k])) ks = filter (\<lambda>b. b \<notin> set ordered) ks"
      using n by (intro filter_cong) auto
    with False show ?thesis by (simp add: Cons.IH[OF d])
  qed
qed

lemma order_books_eq:
  "order_books (organize vs) =
     filter (\<lambda>b. b \<in> v_book ` set vs) CANON_66 @
     filter (\<lambda>b. b \<notin> set CANON_66) (encounter_order (map v_book vs))"
proof -
  let ?keys = "encounter_order (map v_book vs)"
  have keys: "set ?keys = v_book ` set vs" by (simp add: encounter_order_def)
  have has: "\<And>b. map_has b (organize vs) \<longleftrightarrow> b \<in> v_book ` set vs"
    using keys keys_organize[of vs] by (simp add: map_has_iff) (metis image_set)
  let ?ord = "filter (\<lambda>b. b \<in> v_book ` set vs) CANON_66"
  have "filter (\<lambda>b. b \<notin> set ?ord) ?keys = filter (\<lambda>b. b \<notin> set CANON_66) ?keys"
    using keys by (intro filter_cong) auto
  moreover have "distinct ?keys" by (simp add: encounter_order_def)
  ultimately have pm: "push_missing ?keys ?ord = ?ord @ filter (\<lambda>b. b \<notin> set CANON_66) ?keys"
    by (simp add: push_missing_eq)
  have "?keys = []" if e: "push_missing ?keys ?ord = []"
  proof (rule ccontr)
    assume "?keys \<noteq> []"
    then obtain k where k: "k \<in> set ?keys" by (cases ?keys) auto
    from e have "filter (\<lambda>b. b \<notin> set CANON_66) ?keys = []" and o: "?ord = []"
      unfolding pm by simp_all
    with k have "k \<in> set CANON_66" by (auto simp: filter_empty_conv)
    with k keys have "k \<in> set ?ord" by simp
    with o show False by simp
  qed
  then show ?thesis
    unfolding order_books_def Let_def keys_organize has pm by auto
qed



lemma single_lookup_ingest:
  assumes "ingestSingle rt json d = Inr d'"
  shows "single_lookup d' b c =
     (if chapter_rows (kept_verses rt (payload_rows json)) b c = [] then None
      else Some (sort_key v_verse (chapter_rows (kept_verses rt (payload_rows json)) b c)))"
  using assms by (auto simp: ingestSingle_eq Let_def single_lookup_def refs_organize split: if_splits)

lemma ingestSingle_cache: "ingestSingle rt json d = Inr d' \<Longrightarrow> cache d' = cache d"
  by (auto simp: ingestSingle_eq Let_def split: if_splits)

lemma example_kept: "kept_verses example_runtime example_rows \<noteq> []"
  by code_simp

lemma example_ingest: "ingestSingle example_runtime (Rows example_rows) app_data = Inr example_store"
  using example_kept by (simp add: example_store_def ingestSingle_eq Let_def payload_rows_def)


subsection \<open>The order of the documents and of the hits\<close>

lemma distinct_CANON_66: "distinct CANON_66"
  by (simp add: CANON_66_def BUILT_IN_CANON_def)

lemma sorted_wrt_concat_map:
  "(\<forall>x\<in>set xs. sorted_wrt R (f x)) \<Longrightarrow>
   sorted_wrt (\<lambda>x y. \<forall>a\<in>set (f x). \<forall>b\<in>set (f y). R a b) xs \<Longrightarrow>
   sorted_wrt R (concat (map f xs))"
  by (induction xs) (auto simp: sorted_wrt_append)

lemma position_nth: "distinct bs \<Longrightarrow> i < length bs \<Longrightarrow> position (bs ! i) bs = i"
proof (induction bs arbitrary: i)
  case Nil
  then show ?case by simp
next
  case (Cons b bs)
  show ?case
  proof (cases i)
    case 0
    then show ?thesis by simp
  next
    case (Suc j)
    with Cons.prems have "bs ! j \<in> set bs" "b \<notin> set bs" by auto
    then have "bs ! j \<noteq> b" by auto
    with Cons Suc show ?thesis by simp
  qed
qed

lemma chapter_block_sorted:
  "sorted (map v_verse vs) \<Longrightarrow> sorted_wrt (triple_le bs) (map (\<lambda>v. (b, c, v)) vs)"
  by (simp add: sorted_wrt_map triple_le_def sorted_map)

lemma book_block_sorted:
  assumes "\<forall>c. sorted (map v_verse (chap b c))"
  shows "sorted_wrt (triple_le bs) (concat (map (\<lambda>c. map (\<lambda>v. (b, c, v)) (chap b c)) (chapter_numbers cc)))"
proof (rule sorted_wrt_concat_map)
  show "\<forall>c\<in>set (chapter_numbers cc). sorted_wrt (triple_le bs) (map (\<lambda>v. (b, c, v)) (chap b c))"
    using assms by (simp add: chapter_block_sorted)
  have "sorted_wrt (<) (chapter_numbers cc)"
    by (simp add: chapter_numbers_def sorted_wrt_map)
  then show "sorted_wrt (\<lambda>x y. \<forall>a\<in>set (map (\<lambda>v. (b, x, v)) (chap b x)).
                 \<forall>ba\<in>set (map (\<lambda>v. (b, y, v)) (chap b y)). triple_le bs a ba) (chapter_numbers cc)"
    by (rule sorted_wrt_mono_rel[rotated]) (auto simp: triple_le_def)
qed

lemma book_block_first:
  "a \<in> set (concat (map (\<lambda>c. map (\<lambda>v. (b, c, v)) (chap b c)) cs)) \<Longrightarrow> fst a = b"
  by (induction cs) auto

lemma traversal_sorted:
  assumes "distinct (m_books meta)" and "\<forall>b c. sorted (map v_verse (chap b c))"
  shows "sorted_wrt (triple_le (m_books meta)) (traversal meta chap)"
  unfolding traversal_def
proof (rule sorted_wrt_concat_map)
  let ?bs = "m_books meta"
  let ?F = "\<lambda>bi. concat (map (\<lambda>c. map (\<lambda>v. (?bs ! bi, c, v)) (chap (?bs ! bi) c))
                     (chapter_numbers (count_at meta bi)))"
  show "\<forall>bi\<in>set [0..<length ?bs]. sorted_wrt (triple_le ?bs) (?F bi)"
    using assms(2) by (simp add: book_block_sorted)
  have le: "triple_le ?bs a b"
    if "i < length ?bs" "j < length ?bs" "i < j" "a \<in> set (?F i)" "b \<in> set (?F j)"
    for i j a b
  proof -
    from that(4) have "fst a = ?bs ! i" by (rule book_block_first)
    moreover from that(5) have "fst b = ?bs ! j" by (rule book_block_first)
    ultimately have "position (fst a) ?bs = i" "position (fst b) ?bs = j"
      using that(1,2) assms(1) by (simp_all add: position_nth)
    with \<open>i < j\<close> show ?thesis by (simp add: triple_le_def)
  qed
  have "sorted_wrt (<) [0..<length ?bs]" by simp
  then show "sorted_wrt (\<lambda>x y. \<forall>a\<in>set (?F x). \<forall>b\<in>set (?F y). triple_le ?bs a b) [0..<length ?bs]"
  proof (rule sorted_wrt_mono_rel[rotated])
    fix x y assume "x \<in> set [0..<length ?bs]" "y \<in> set [0..<length ?bs]" "x < y"
    then have "x < length ?bs" "y < length ?bs" "x < y" by simp_all
    then show "\<forall>a\<in>set (?F x). \<forall>b\<in>set (?F y). triple_le ?bs a b"
      using le by blast
  qed
qed

lemma hit_le_make_hit:
  "hit_le bs (make_hit ts b c v) (make_hit ts b' c' v') = triple_le bs (b, c, v) (b', c', v')"
  by (simp add: hit_le_def triple_le_def make_hit_def)

lemma search_sorted:
  assumes "distinct (m_books meta)" and "\<forall>b c. sorted (map v_verse (chap b c))"
  shows "sorted_wrt (hit_le (m_books meta)) (search meta chap q limit)"
proof -
  let ?mk = "\<lambda>x. case x of (b, c, v) \<Rightarrow> make_hit (tokenize q) b c v"
  have eq: "hit_le (m_books meta) (?mk x) (?mk y) = triple_le (m_books meta) x y" for x y
    by (cases x, cases y) (simp add: hit_le_make_hit)
  have "sorted_wrt (\<lambda>x y. hit_le (m_books meta) (?mk x) (?mk y)) (traversal meta chap)"
    unfolding eq using traversal_sorted[OF assms] .
  then have "sorted_wrt (hit_le (m_books meta))
      (map ?mk
         (filter (\<lambda>(b, c, v). verse_ok (toLowerCase (v_text v)) (tokenize q)) (traversal meta chap)))"
    unfolding sorted_wrt_map by (rule sorted_wrt_filter)
  then show ?thesis
    unfolding search_eq_take by (rule sorted_wrt_take)
qed

lemma getChapter_fresh_single:
  "singleByRef d = Some m \<Longrightarrow> cache d = Map.empty \<Longrightarrow>
   fst (getChapter rt fetch d b c) = Inr (case m (b, c) of Some vs \<Rightarrow> vs | None \<Rightarrow> [])"
  by (simp add: getChapter_def Let_def)

lemma store_source_ingest:
  assumes "ingestSingle rt json d0 = Inr d" and "cache d0 = Map.empty"
  shows "store_source rt fetch d b c =
     sort_key v_verse (chapter_rows (kept_verses rt (payload_rows json)) b (of_nat c))"
proof -
  from assms have c: "cache d = Map.empty" by (simp add: ingestSingle_cache)
  from assms(1) obtain m where m: "singleByRef d = Some m"
    by (auto simp: ingestSingle_eq Let_def split: if_splits)
  let ?rows = "chapter_rows (kept_verses rt (payload_rows json)) b (of_nat c)"
  have "m (b, of_nat c) = (if ?rows = [] then None else Some (sort_key v_verse ?rows))"
    using single_lookup_ingest[OF assms(1), of b "of_nat c"] m by (simp add: single_lookup_def)
  then show ?thesis
    using getChapter_fresh_single[OF m c, of rt fetch b "of_nat c"]
    by (simp add: store_source_def)
qed

lemma books_ingest:
  assumes "ingestSingle rt json d0 = Inr d"
  shows "books d =
     filter (\<lambda>b. b \<in> v_book ` set (kept_verses rt (payload_rows json))) CANON_66 @
     filter (\<lambda>b. b \<notin> set CANON_66) (encounter_order (map v_book (kept_verses rt (payload_rows json))))"
  using assms by (auto simp: ingestSingle_eq Let_def order_books_eq split: if_splits)

lemma distinct_books_ingest:
  assumes "ingestSingle rt json d0 = Inr d"
  shows "distinct (books d)"
  unfolding books_ingest[OF assms]
  by (auto simp: distinct_CANON_66 encounter_order_def)

section \<open>Properties of the store\<close>

subsection \<open>Reading a chapter\<close>

lemma getChapter_cached:
  "cache d (book, ch) = Some vs \<Longrightarrow> getChapter rt fetch d book ch = (Inr vs, d, [])"
  by (simp add: getChapter_def)

lemma getChapter_single:
  "cache d (book, ch) = None \<Longrightarrow> singleByRef d = Some m \<Longrightarrow>
   getChapter rt fetch d book ch =
     (Inr (case m (book, ch) of Some vs \<Rightarrow> vs | None \<Rightarrow> []),
      d\<lparr>cache := (cache d)((book, ch) \<mapsto> (case m (book, ch) of Some vs \<Rightarrow> vs | None \<Rightarrow> []))\<rparr>, [])"
  by (simp add: getChapter_def Let_def)

lemma getChapter_split_none:
  "cache d (book, ch) = None \<Longrightarrow> singleByRef d = None \<Longrightarrow> payload_of (fetch book) = None \<Longrightarrow>
   getChapter rt fetch d book ch =
     (Inl (case fetch book of Body txt None \<Rightarrow> SyntaxError | _ \<Rightarrow> MissingData book), d, [BookFile book])"
  by (cases "fetch book" rule: payload_of.cases) (simp_all add: getChapter_def)

lemma getChapter_split_some:
  "cache d (book, ch) = None \<Longrightarrow> singleByRef d = None \<Longrightarrow> payload_of (fetch book) = Some jb \<Longrightarrow>
   getChapter rt fetch d book ch =
     (let (chapterCount, chapters) = normalizePerBook rt d book jb;
          verses = (case map_of chapters ch of Some vs \<Rightarrow> vs | None \<Rightarrow> [])
      in (Inr verses,
          d\<lparr>bookChapters := (bookChapters d)(book \<mapsto> chapterCount),
            cache := (cache d)((book, ch) \<mapsto> verses)\<rparr>, [BookFile book]))"
  by (cases "fetch book" rule: payload_of.cases)
     (auto simp: getChapter_def Let_def split_def split: perbook.splits)

lemma getChapter_memo:
  assumes "getChapter rt fetch d book ch = (Inr vs, d1, f1)"
  shows "getChapter rt fetch' d1 book ch = (Inr vs, d1, [])"
proof -
  have "cache d1 (book, ch) = Some vs"
  proof (cases "cache d (book, ch)")
    case (Some ws)
    with assms show ?thesis by (simp add: getChapter_cached)
  next
    case None
    show ?thesis
    proof (cases "singleByRef d")
      case (Some m)
      with None assms show ?thesis by (auto simp: getChapter_single)
    next
      case N: None
      show ?thesis
      proof (cases "payload_of (fetch book)")
        case None
        with \<open>cache d (book, ch) = None\<close> N assms show ?thesis by (simp add: getChapter_split_none)
      next
        case (Some jb)
        with \<open>cache d (book, ch) = None\<close> N assms show ?thesis
          by (auto simp: getChapter_split_some Let_def split_def)
      qed
    qed
  qed
  then show ?thesis by (rule getChapter_cached)
qed

lemma getChapter_raises_iff:
  "(\<exists>e. fst (getChapter rt fetch d book ch) = Inl e) \<longleftrightarrow>
   singleByRef d = None \<and> cache d (book, ch) = None \<and> payload_of (fetch book) = None"
proof (cases "cache d (book, ch)")
  case (Some ws)
  then show ?thesis by (simp add: getChapter_cached)
next
  case None
  show ?thesis
  proof (cases "singleByRef d")
    case (Some m)
    with None show ?thesis by (simp add: getChapter_single)
  next
    case N: None
    show ?thesis
    proof (cases "payload_of (fetch book)")
      case None
      with \<open>cache d (book, ch) = None\<close> N show ?thesis by (simp add: getChapter_split_none)
    next
      case (Some jb)
      with \<open>cache d (book, ch) = None\<close> N show ?thesis
        by (simp add: getChapter_split_some Let_def split_def)
    qed
  qed
qed




lemma split_store_fields:
  "singleByRef split_store = None" "cache split_store = Map.empty" "books split_store = CANON_66"
  by (simp_all add: split_store_def init_def init_inline_def init_single_def init_canon_def
       no_sources_def app_data_def new_Data_def Let_def)


subsection \<open>Initialization\<close>













section \<open>Properties of the reference parser\<close>

lemma space_not_alpha: "is_space c \<Longrightarrow> \<not> is_alpha_dot c"
  by (auto simp: is_space_def is_alpha_dot_def Let_def)

lemma space_not_digit: "is_space c \<Longrightarrow> \<not> is_digit c"
  by (auto simp: is_space_def is_digit_def)

lemma space_not_colon: "is_space c \<Longrightarrow> c \<noteq> CHR '':''"
  by (auto simp: is_space_def)

lemma alpha_not_123: "is_alpha_dot c \<Longrightarrow> c \<noteq> CHR ''1'' \<and> c \<noteq> CHR ''2'' \<and> c \<noteq> CHR ''3''"
  by (auto simp: is_alpha_dot_def Let_def)

lemma digit_123: "c = CHR ''1'' \<or> c = CHR ''2'' \<or> c = CHR ''3'' \<Longrightarrow> \<not> is_space c"
  by (auto simp: is_space_def)

lemma colon_not_digit: "\<not> is_digit (CHR '':'')"
  by (simp add: is_digit_def)

lemma takeWhile_all: "list_all P xs \<Longrightarrow> (ys = [] \<or> \<not> P (hd ys)) \<Longrightarrow> takeWhile P (xs @ ys) = xs"
  by (induction xs) (auto simp: neq_Nil_conv takeWhile_eq_Nil_iff)

lemma dropWhile_all: "list_all P xs \<Longrightarrow> (ys = [] \<or> \<not> P (hd ys)) \<Longrightarrow> dropWhile P (xs @ ys) = ys"
  by (induction xs) (auto simp: neq_Nil_conv dropWhile_eq_self_iff)

lemma match_ref_form:
  assumes "ref_form lead pre name ws ds vs trail"
  shows "match_ref (ref_string lead pre name ws ds vs trail) = Some (pre @ name, ds, vs)"
proof -
  define vpart where "vpart = (case vs of None \<Rightarrow> [] | Some v \<Rightarrow> CHR '':'' # v)"
  define t6 where "t6 = vpart @ trail"
  define t5 where "t5 = ds @ t6"
  define t4 where "t4 = ws @ t5"
  define t3 where "t3 = name @ t4"
  from assms have lead: "list_all is_space lead" and trail: "list_all is_space trail"
    and pre: "pre = [] \<or> (hd pre = CHR ''1'' \<or> hd pre = CHR ''2'' \<or> hd pre = CHR ''3'') \<and> list_all is_space (tl pre)"
    and name: "name \<noteq> []" "list_all is_alpha_dot name"
    and ws: "ws \<noteq> []" "list_all is_space ws"
    and ds: "ds \<noteq> []" "list_all is_digit ds"
    and vs: "case vs of None \<Rightarrow> True | Some v \<Rightarrow> v \<noteq> [] \<and> list_all is_digit v"
    by (simp_all add: ref_form_def)
  have s: "ref_string lead pre name ws ds vs trail = lead @ pre @ t3"
    by (simp add: ref_string_def t3_def t4_def t5_def t6_def vpart_def)
  from name have hd3: "is_alpha_dot (hd t3)" "t3 \<noteq> []"
    by (cases name; simp add: t3_def)+
  from ws have hd4: "is_space (hd t4)" "t4 \<noteq> []"
    by (cases ws; simp add: t4_def)+
  from ds have hd5: "is_digit (hd t5)" "t5 \<noteq> []"
    by (cases ds; simp add: t5_def)+
  have hd6: "t6 = [] \<or> \<not> is_digit (hd t6)"
  proof (cases vs)
    case None
    then show ?thesis using trail by (cases trail) (auto simp: t6_def vpart_def space_not_digit)
  next
    case (Some v)
    then show ?thesis by (simp add: t6_def vpart_def colon_not_digit)
  qed
  \<comment> \<open>the leading white space\<close>
  have "pre @ t3 = [] \<or> \<not> is_space (hd (pre @ t3))"
    using pre hd3 by (cases pre) (auto simp: space_not_alpha digit_123)
  then have s1: "dropWhile is_space (lead @ pre @ t3) = pre @ t3"
    using lead by (rule dropWhile_all[rotated])
  \<comment> \<open>the optional digit and the white space after it\<close>
  have step2: "(case pre @ t3 of
                  c # cs \<Rightarrow> if c = CHR ''1'' \<or> c = CHR ''2'' \<or> c = CHR ''3'' then ([c], cs) else ([], pre @ t3)
                | [] \<Rightarrow> ([], pre @ t3)) = (take 1 pre, tl pre @ t3)"
  proof (cases pre)
    case Nil
    with hd3 show ?thesis by (cases t3) (auto dest: alpha_not_123)
  next
    case (Cons c cs)
    with pre show ?thesis by auto
  qed
  have nsp3: "t3 = [] \<or> \<not> is_space (hd t3)" using hd3 by (auto simp: space_not_alpha)
  have tlpre: "list_all is_space (tl pre)" using pre by (cases pre) auto
  have ws1: "takeWhile is_space (tl pre @ t3) = tl pre" using tlpre nsp3 by (rule takeWhile_all)
  have s3: "dropWhile is_space (tl pre @ t3) = t3" using tlpre nsp3 by (rule dropWhile_all)
  have m1: "take 1 pre @ tl pre = pre" by (cases pre) auto
  \<comment> \<open>the name, the white space, the chapter\<close>
  have nal4: "t4 = [] \<or> \<not> is_alpha_dot (hd t4)" using hd4 by (auto simp: space_not_alpha)
  have nm: "takeWhile is_alpha_dot t3 = name" unfolding t3_def using name(2) nal4 by (rule takeWhile_all)
  have s4: "dropWhile is_alpha_dot t3 = t4" unfolding t3_def using name(2) nal4 by (rule dropWhile_all)
  have nsp5: "t5 = [] \<or> \<not> is_space (hd t5)" using hd5 by (auto simp: space_not_digit)
  have w4: "takeWhile is_space t4 = ws" unfolding t4_def using ws(2) nsp5 by (rule takeWhile_all)
  have s5: "dropWhile is_space t4 = t5" unfolding t4_def using ws(2) nsp5 by (rule dropWhile_all)
  have ch: "takeWhile is_digit t5 = ds" unfolding t5_def using ds(2) hd6 by (rule takeWhile_all)
  have s6: "dropWhile is_digit t5 = t6" unfolding t5_def using ds(2) hd6 by (rule dropWhile_all)
  \<comment> \<open>the optional verse and the end\<close>
  have ntr: "trail = [] \<or> \<not> is_digit (hd trail)"
    using trail by (cases trail) (auto simp: space_not_digit)
  have step7: "(case t6 of
                  c # cs \<Rightarrow> if c = CHR '':'' \<and> takeWhile is_digit cs \<noteq> []
                            then (Some (takeWhile is_digit cs), dropWhile is_digit cs)
                            else (None, t6)
                | [] \<Rightarrow> (None, t6)) = (vs, trail)"
  proof (cases vs)
    case None
    then show ?thesis using trail by (cases trail) (auto simp: t6_def vpart_def dest: space_not_colon)
  next
    case (Some v)
    with vs have v: "v \<noteq> []" "list_all is_digit v" by simp_all
    have "takeWhile is_digit (v @ trail) = v" using v(2) ntr by (rule takeWhile_all)
    moreover have "dropWhile is_digit (v @ trail) = trail" using v(2) ntr by (rule dropWhile_all)
    ultimately show ?thesis using Some v(1) by (simp add: t6_def vpart_def)
  qed
  have e: "dropWhile is_space trail = []"
    using dropWhile_all[OF trail, of "[]"] by simp
  show ?thesis
    unfolding match_ref_def s s1 Let_def step2 split_conv ws1 s3 nm s4 w4 s5 ch s6 step7
    using name(1) ws(1) ds(1) e m1 by simp
qed

lemma split_store_counts: "bookChapters split_store = map_of BUILT_IN_CANON"
  by (simp add: split_store_def init_def init_inline_def init_single_def init_canon_def
       no_sources_def app_data_def new_Data_def Let_def)

lemma split_store_books: "books split_store = CANON_66"
  by (simp add: split_store_def init_def init_inline_def init_single_def init_canon_def
       no_sources_def app_data_def new_Data_def Let_def)

lemma parseRef_form_eq:
  assumes "ref_form lead pre name ws ds vs trail"
  shows "parseRef d (ref_string lead pre name ws ds vs trail) =
      (let b0 = trim (filter (\<lambda>c. c \<noteq> CHR ''.'') (pre @ name)) in
       case (case BOOK_ALIASES (toLowerCase b0) of
               Alias n \<Rightarrow> Some n
             | Inherited \<Rightarrow> None
             | NoAlias \<Rightarrow> (case resolveBook d b0 of
                             Some r \<Rightarrow> if r \<noteq> [] then Some r else Some b0
                           | None \<Rightarrow> Some b0)) of
         None \<Rightarrow> None
       | Some b \<Rightarrow>
           if hasBook d b
           then Some \<lparr>ref_book = b, ref_chapter = min (max 1 (digits_value ds)) (chapterCount d b),
                      ref_verse = map_option digits_value vs\<rparr>
           else None)"
proof -
  from assms have "name \<noteq> []" by (simp add: ref_form_def)
  then have "ref_string lead pre name ws ds vs trail \<noteq> []" by (simp add: ref_string_def)
  then show ?thesis
    unfolding parseRef_def match_ref_form[OF assms] Let_def
    by (simp only: if_False option.case prod.case not_not if_not_P if_P split: if_splits cong: if_cong)
       (auto split: option.splits alias_entry.splits)
qed

lemma parseRef_clamp:
  assumes "parseRef d s = Some r"
  shows "hasBook d (ref_book r)"
    and "1 \<le> chapterCount d (ref_book r) \<Longrightarrow> 1 \<le> ref_chapter r \<and> ref_chapter r \<le> chapterCount d (ref_book r)"
  using assms
  by (auto simp: parseRef_def Let_def split: if_splits option.splits prod.splits alias_entry.splits)

lemma jn_form: "ref_form [] [] ''jn'' '' '' ''3'' (Some ''16'') []"
  by code_simp

lemma jn_string: "ref_string [] [] ''jn'' '' '' ''3'' (Some ''16'') [] = ''jn 3:16''"
  by (simp add: ref_string_def)

lemma jn_key: "trim ''jn'' = ''jn''" "toLowerCase ''jn'' = ''jn''"
      "BOOK_ALIASES ''jn'' = Alias ''John''" "digits_value ''3'' = 3" "digits_value ''16'' = 16"
  by code_simp+

lemma parseRef_jn:
  assumes "hasBook d ''John''" and "3 \<le> chapterCount d ''John''"
  shows "parseRef d ''jn 3:16'' = Some \<lparr>ref_book = ''John'', ref_chapter = 3, ref_verse = Some 16\<rparr>"
  using parseRef_form_eq[OF jn_form, of d] assms
  by (simp add: jn_string jn_key Let_def)


section \<open>Properties of highlighting\<close>












section \<open>The claims\<close>



text \<open>
  C2 (as amended). After single-source ingestion, every stored chapter holds exactly the
  surviving verses of its document and chapter, each as often as the payload gives it,
  in ascending (not strictly ascending) order of verse number, verses with the same
  number in the order of the payload. Duplicates and gaps of the payload are kept.
\<close>

theorem ingest_chapters_sorted:
  assumes "ingestSingle rt json d = Inr d'" and "single_lookup d' b c = Some vs"
  shows "sorted (map v_verse vs) \<and>
         mset vs = mset (chapter_rows (kept_verses rt (payload_rows json)) b c) \<and>
         vs = sort_key v_verse (chapter_rows (kept_verses rt (payload_rows json)) b c)"
  using assms by (auto simp: single_lookup_ingest split: if_splits)

theorem ingest_chapters_sorted_witness:
  "single_lookup example_store ''Genesis'' 1 =
     Some (sort_key v_verse (chapter_rows (kept_verses example_runtime (payload_rows (Rows example_rows))) ''Genesis'' 1)) \<and>
   map v_verse (sort_key v_verse (chapter_rows (kept_verses example_runtime (payload_rows (Rows example_rows))) ''Genesis'' 1)) = [1, 1, 3]"
proof -
  have 1: "map v_verse (sort_key v_verse (chapter_rows (kept_verses example_runtime (payload_rows (Rows example_rows))) ''Genesis'' 1)) = [1, 1, 3]"
    by code_simp
  obtain vs where vs: "single_lookup example_store ''Genesis'' 1 = Some vs"
    using single_lookup_ingest[OF example_ingest, of "''Genesis''" 1] 1 by (auto split: if_splits)
  from ingest_chapters_sorted[OF example_ingest vs] vs 1 show ?thesis by simp
qed

text \<open>
  C2 (as stated) fails: in the example payload Genesis 1 comes with the verse numbers
  3, 1 and 1, and the stored chapter holds the triple (Genesis, 1, 1) twice and no
  verse 2.
\<close>

theorem ingest_keeps_duplicates:
  "chapter_refs example_store ''Genesis'' 1 =
     [(''Genesis'', 1, 1), (''Genesis'', 1, 1), (''Genesis'', 1, 3)]"
proof -
  have "cache example_store = Map.empty"
    using ingestSingle_cache[OF example_ingest] by (simp add: app_data_def new_Data_def)
  moreover have "map (\<lambda>v. (v_book v, v_chapter v, v_verse v))
      (sort_key v_verse (chapter_rows (kept_verses example_runtime (payload_rows (Rows example_rows))) ''Genesis'' 1))
    = [(''Genesis'', 1, 1), (''Genesis'', 1, 1), (''Genesis'', 1, 3)]"
    by code_simp
  ultimately show ?thesis
    using single_lookup_ingest[OF example_ingest, of "''Genesis''" 1]
    by (auto simp: chapter_refs_def getChapter_def Let_def single_lookup_def split: option.splits if_splits)
qed

text \<open>
  C3. In split-source mode a call for another chapter of a book whose file has been
  fetched fetches the file again: only the chapter asked for was put in the cache. The
  comment in the source reads \<open>Per-book: fetch once then slice\<close>.
\<close>

theorem getChapter_refetches:
  "(let (r1, d1, f1) = getChapter example_runtime example_fetch split_store ''Genesis'' 1;
        (r2, d2, f2) = getChapter example_runtime example_fetch d1 ''Genesis'' 2
    in (f1, f2)) = ([BookFile ''Genesis''], [BookFile ''Genesis''])"
  by code_simp

text \<open>
  C4. With the limit 0 the scan still reports a hit: the test
  \<open>results.length >= limit\<close> is made only after a hit has been pushed, so
  \<open>search(q, 0)\<close> returns one hit where the claim allows none.
\<close>

theorem search_limit_zero:
  "search example_meta example_corpus ''the'' 0 =
     [\<lparr>h_book = ''Genesis'', h_chapter = 1, h_verse = 1,
       h_previewHtml = ''In <mark>the</mark> beginning God created <mark>the</mark> heaven and <mark>the</mark> earth.''\<rparr>]"
  by code_simp

text \<open>
  C5. After single-source ingestion into a store whose cache is empty, the list of
  documents holds the Canon names that occur in the payload, in the order of the Canon
  table, and after them the other names in the order in which the payload first gives
  them; and the hits of a search over the metadata and the chapters of that store are in
  ascending order of the place of the document in that list, then of chapter number,
  then of verse number.
\<close>

theorem search_order:
  assumes "ingestSingle rt json d0 = Inr d" and "cache d0 = Map.empty"
  shows "books d =
           filter (\<lambda>b. b \<in> v_book ` set (kept_verses rt (payload_rows json))) CANON_66 @
           filter (\<lambda>b. b \<notin> set CANON_66)
             (encounter_order (map v_book (kept_verses rt (payload_rows json)))) \<and>
         sorted_wrt (hit_le (books d))
           (search (indexMeta d) (store_source rt fetch d) q limit)"
proof -
  have "distinct (m_books (indexMeta d))"
    using distinct_books_ingest[OF assms(1)] by (simp add: indexMeta_def)
  moreover have "\<forall>b c. sorted (map v_verse (store_source rt fetch d b c))"
    by (simp add: store_source_ingest[OF assms])
  ultimately have "sorted_wrt (hit_le (m_books (indexMeta d)))
      (search (indexMeta d) (store_source rt fetch d) q limit)"
    by (rule search_sorted)
  then show ?thesis using books_ingest[OF assms(1)] by (simp add: indexMeta_def)
qed

theorem search_order_witness:
  "books example_store = [''Genesis'', ''Exodus'', ''John'', ''Zed''] \<and>
   map (\<lambda>h. (h_book h, h_chapter h, h_verse h))
     (search (indexMeta example_store) (store_source example_runtime (\<lambda>b. NotOk) example_store) ''god'' 100) =
     [(''Genesis'', 1, 1), (''Genesis'', 1, 3), (''John'', 1, 2)] \<and>
   sorted_wrt (hit_le (books example_store))
     (search (indexMeta example_store) (store_source example_runtime (\<lambda>b. NotOk) example_store) ''god'' 100)"
proof -
  have 1: "books example_store = [''Genesis'', ''Exodus'', ''John'', ''Zed'']"
    by code_simp
  have 2: "map (\<lambda>h. (h_book h, h_chapter h, h_verse h))
     (search (indexMeta example_store) (store_source example_runtime (\<lambda>b. NotOk) example_store) ''god'' 100) =
     [(''Genesis'', 1, 1), (''Genesis'', 1, 3), (''John'', 1, 2)]"
    by code_simp
  have c: "cache app_data = Map.empty" by (simp add: app_data_def new_Data_def)
  have 3: "sorted_wrt (hit_le (books example_store))
     (search (indexMeta example_store) (store_source example_runtime (\<lambda>b. NotOk) example_store) ''god'' 100)"
    by (rule conjunct2[OF search_order[OF example_ingest c]])
  show ?thesis by (intro conjI 1 2 3)
qed







text \<open>
  C9. On a string of the form \<open><book-token> <chapter>[:<verse>]\<close> the parser takes
  the book token without its dots, looks its lower-case form up in the alias table, and
  passes it to \<open>resolveBook\<close> only when the table has no entry for it (a token that
  \<open>resolveBook\<close> does not resolve stands for itself); it returns none when the store
  does not have the resulting book, and else the book, the chapter number brought into
  the range from 1 to \<open>chapterCount\<close> of the book (for a count of at least 1), and the
  verse number when one is given. With John in the store and at least 3 chapters for it,
  \<open>jn 3:16\<close> gives John, chapter 3, verse 16.
\<close>

theorem parseRef_form:
  "(ref_form lead pre name ws ds vs trail \<longrightarrow>
      parseRef d (ref_string lead pre name ws ds vs trail) =
        (let b0 = trim (filter (\<lambda>c. c \<noteq> CHR ''.'') (pre @ name)) in
         case (case BOOK_ALIASES (toLowerCase b0) of
                 Alias n \<Rightarrow> Some n
               | Inherited \<Rightarrow> None
               | NoAlias \<Rightarrow> (case resolveBook d b0 of
                               Some r \<Rightarrow> if r \<noteq> [] then Some r else Some b0
                             | None \<Rightarrow> Some b0)) of
           None \<Rightarrow> None
         | Some b \<Rightarrow>
             if hasBook d b
             then Some \<lparr>ref_book = b, ref_chapter = min (max 1 (digits_value ds)) (chapterCount d b),
                        ref_verse = map_option digits_value vs\<rparr>
             else None)) \<and>
   (\<forall>r. parseRef d s = Some r \<longrightarrow>
      hasBook d (ref_book r) \<and>
      (1 \<le> chapterCount d (ref_book r) \<longrightarrow>
         1 \<le> ref_chapter r \<and> ref_chapter r \<le> chapterCount d (ref_book r))) \<and>
   (hasBook d ''John'' \<and> 3 \<le> chapterCount d ''John'' \<longrightarrow>
      parseRef d ''jn 3:16'' = Some \<lparr>ref_book = ''John'', ref_chapter = 3, ref_verse = Some 16\<rparr>)"
  using parseRef_form_eq[of lead pre name ws ds vs trail d] parseRef_clamp[of d s] parseRef_jn[of d]
  by blast

theorem parseRef_form_witness:
  "hasBook split_store ''John'' \<and> chapterCount split_store ''John'' = 21 \<and>
   parseRef split_store ''jn 3:16'' = Some \<lparr>ref_book = ''John'', ref_chapter = 3, ref_verse = Some 16\<rparr>"
proof -
  have 1: "hasBook split_store ''John''"
    by (simp add: hasBook_def split_store_books CANON_66_def BUILT_IN_CANON_def)
  have 2: "chapterCount split_store ''John'' = 21"
    by (simp add: chapterCount_def split_store_counts BUILT_IN_CANON_def)
  from parseRef_form[of "[]" "[]" "''jn''" "'' ''" "''3''" "Some ''16''" "[]" split_store "''jn 3:16''"] 1 2
  have "parseRef split_store ''jn 3:16'' = Some \<lparr>ref_book = ''John'', ref_chapter = 3, ref_verse = Some 16\<rparr>"
    by simp
  with 1 2 show ?thesis by simp
qed




section \<open>Further properties\<close>

text \<open>
  The hits for a smaller limit are a prefix of the hits for a greater one, whatever the
  limits; and for a limit of at least 1 there are at most as many hits as the limit.
\<close>

theorem search_limit_prefix:
  "(n \<le> m \<longrightarrow> prefix (search meta chap q n) (search meta chap q m)) \<and>
   (1 \<le> n \<longrightarrow> length (search meta chap q n) \<le> nat n)"
proof (intro conjI impI)
  assume "n \<le> m"
  then have "cap n \<le> cap m" by (rule cap_mono)
  then show "prefix (search meta chap q n) (search meta chap q m)"
    unfolding search_eq_take by (cases "tokenize q = []") (simp_all add: prefix_take_take)
next
  assume "1 \<le> n"
  then have "cap n = nat n" by (simp add: cap_def max_def)
  then show "length (search meta chap q n) \<le> nat n"
    unfolding search_eq_take by simp
qed

theorem search_limit_prefix_witness:
  "prefix (search example_meta example_corpus ''the'' 1) (search example_meta example_corpus ''the'' 5) \<and>
   length (search example_meta example_corpus ''the'' 1) = 1 \<and>
   length (search example_meta example_corpus ''the'' 5) = 2"
proof -
  have 1: "length (search example_meta example_corpus ''the'' 1) = 1" by code_simp
  have 2: "length (search example_meta example_corpus ''the'' 5) = 2" by code_simp
  from search_limit_prefix[of 1 5 example_meta example_corpus "''the''"]
  have "prefix (search example_meta example_corpus ''the'' 1) (search example_meta example_corpus ''the'' 5)"
    by simp
  with 1 2 show ?thesis by simp
qed

text \<open>
  When \<open>getChapter\<close> has returned the verses of a chapter, a further call with the
  same book and chapter returns the same verses from the cache: it fetches nothing and
  leaves the store as it is.
\<close>

theorem getChapter_same_key:
  "getChapter rt fetch d book ch = (Inr vs, d1, f1) \<longrightarrow>
   getChapter rt fetch' d1 book ch = (Inr vs, d1, [])"
  using getChapter_memo[of rt fetch d book ch vs d1 f1 fetch'] by blast

theorem getChapter_same_key_witness:
  "snd (snd (getChapter example_runtime example_fetch split_store ''Genesis'' 1)) = [BookFile ''Genesis''] \<and>
   snd (snd (getChapter example_runtime example_fetch
               (fst (snd (getChapter example_runtime example_fetch split_store ''Genesis'' 1))) ''Genesis'' 1)) = [] \<and>
   fst (getChapter example_runtime example_fetch
          (fst (snd (getChapter example_runtime example_fetch split_store ''Genesis'' 1))) ''Genesis'' 1) =
   fst (getChapter example_runtime example_fetch split_store ''Genesis'' 1)"
proof -
  let ?r = "getChapter example_runtime example_fetch split_store ''Genesis'' 1"
  have p: "payload_of (example_fetch ''Genesis'') = Some example_book"
    by (simp add: example_fetch_def example_book_def)
  have "\<not> (\<exists>e. fst ?r = Inl e)"
    using p by (simp add: getChapter_raises_iff)
  then obtain vs where vs: "fst ?r = Inr vs" by (cases "fst ?r") auto
  have f: "snd (snd ?r) = [BookFile ''Genesis'']"
    using p split_store_fields(1,2) by (simp add: getChapter_split_some Let_def split_def)
  from vs f have "?r = (Inr vs, fst (snd ?r), [BookFile ''Genesis''])"
    by (metis prod.collapse)
  with getChapter_same_key[of example_runtime example_fetch split_store "''Genesis''" 1 vs "fst (snd ?r)"
        "[BookFile ''Genesis'']" example_fetch]
  have "getChapter example_runtime example_fetch (fst (snd ?r)) ''Genesis'' 1 = (Inr vs, fst (snd ?r), [])"
    by blast
  with vs f show ?thesis by simp
qed

end
